theory Spec2Isabelle
  imports Main "HOL-Library.Multiset"
begin

section \<open>JavaScript values used by the front end\<close>

text \<open>
  A JavaScript string is a sequence of UTF-16 code units. A code unit is modelled as a
  natural number (every value below 65536 is one), so that \<open>length\<close> counts what
  \<open>.length\<close> counts and the non-ASCII white space removed by \<open>trim\<close> can be written
  down. \<open>js\<close> turns an ASCII literal into its code units.
\<close>

type_synonym js_string = "nat list"

definition js :: "string \<Rightarrow> js_string" where
  "js s = map of_char s"

text \<open>The only exception the modelled code could raise: a method call on a value that has no such method.\<close>

datatype js_error = TypeError

text \<open>
  An entry of a job's \<open>logs\<close> array as it arrives in the JSON body of \<open>GET /builds\<close>:
  a string, or any other JSON value.
\<close>

datatype log_entry = JStr js_string | JNum int | JBool bool | JNull | JUndefined | JObject

fun typeof :: "log_entry \<Rightarrow> string" where
  "typeof (JStr s) = ''string''"
| "typeof (JNum n) = ''number''"
| "typeof (JBool b) = ''boolean''"
| "typeof JNull = ''object''"
| "typeof JUndefined = ''undefined''"
| "typeof JObject = ''object''"

section \<open>The progress marker: \<open>/PROGRESS:(\d{1,3})/\<close>\<close>

definition is_digit :: "nat \<Rightarrow> bool" where
  "is_digit c = (48 \<le> c \<and> c \<le> 57)"

fun after_prefix :: "js_string \<Rightarrow> js_string \<Rightarrow> js_string option" where
  "after_prefix [] s = Some s"
| "after_prefix (p # ps) [] = None"
| "after_prefix (p # ps) (c # cs) = (if p = c then after_prefix ps cs else None)"

text \<open>
  The regular expression tried at the start of \<open>s\<close>: the literal \<open>PROGRESS:\<close>, then the
  greedy group \<open>(\d{1,3})\<close>, which takes as many digits as there are, up to three, and
  needs one. The result is the text of group 1.
\<close>

definition match_here :: "js_string \<Rightarrow> js_string option" where
  "match_here s =
     (case after_prefix (js ''PROGRESS:'') s of
        None \<Rightarrow> None
      | Some r \<Rightarrow> (let ds = take 3 (takeWhile is_digit r)
                   in if ds = [] then None else Some ds))"

text \<open>
  \<open>String.prototype.match\<close> with a regular expression without the \<open>g\<close> flag: the
  leftmost position at which the expression matches; \<open>None\<close> is JavaScript's \<open>null\<close>.
\<close>

fun String_match :: "js_string \<Rightarrow> js_string option" where
  "String_match [] = match_here []"
| "String_match (c # cs) =
     (case match_here (c # cs) of
        Some ds \<Rightarrow> Some ds
      | None \<Rightarrow> String_match cs)"

text \<open>\<open>ln.match(...)\<close> as a method call: a value that is not a string has no \<open>match\<close>.\<close>

fun call_match :: "log_entry \<Rightarrow> js_error + js_string option" where
  "call_match (JStr s) = Inr (String_match s)"
| "call_match v = Inl TypeError"

section \<open>\<open>parseInt(s, 10)\<close>\<close>

definition is_whitespace :: "nat \<Rightarrow> bool" where
  "is_whitespace c =
     (c \<in> {9, 10, 11, 12, 13, 32, 160, 5760, 8232, 8233, 8239, 8287, 12288, 65279}
      \<or> (8192 \<le> c \<and> c \<le> 8202))"

definition decimal :: "js_string \<Rightarrow> int" where
  "decimal ds = foldl (\<lambda>a d. 10 * a + int (d - 48)) 0 ds"

text \<open>
  Leading white space is skipped, one sign is read, then the longest run of decimal
  digits; \<open>None\<close> is \<open>NaN\<close> (no digit there).
\<close>

definition parseInt :: "js_string \<Rightarrow> int option" where
  "parseInt s =
     (let t = dropWhile is_whitespace s;
          sign = (case t of c # r \<Rightarrow> if c = 45 then - 1 else 1 | [] \<Rightarrow> (1::int));
          u = (case t of c # r \<Rightarrow> if c = 45 \<or> c = 43 then r else t | [] \<Rightarrow> []);
          ds = takeWhile is_digit u
      in if ds = [] then None else Some (sign * decimal ds))"

section \<open>\<open>parseProgressFromLogs\<close> (component Queue)\<close>

text \<open>
  The loop \<open>for (let i = logs.length - 1; i >= 0; i--)\<close>: \<open>scan logs n\<close> is the loop
  with \<open>n\<close> entries still to visit, so its next index is \<open>n - 1\<close>.
\<close>

fun scan :: "log_entry list \<Rightarrow> nat \<Rightarrow> js_error + int option" where
  "scan logs 0 = Inr None"
| "scan logs (Suc i) =
     (let ln = logs ! i in
      case (if typeof ln = ''string'' then call_match ln else Inr None) of
        Inl e \<Rightarrow> Inl e
      | Inr None \<Rightarrow> scan logs i
      | Inr (Some g1) \<Rightarrow>
          (case parseInt g1 of
             Some v \<Rightarrow> Inr (Some (max 0 (min 100 v)))
           | None \<Rightarrow> scan logs i))"

text \<open>
  \<open>logs\<close> is \<open>None\<close> when the job has no \<open>logs\<close> field (or it is \<open>null\<close>); the result
  \<open>Inr None\<close> is the function's \<open>null\<close>.
\<close>

definition parseProgressFromLogs :: "log_entry list option \<Rightarrow> js_error + int option" where
  "parseProgressFromLogs logs =
     (case logs of
        None \<Rightarrow> Inr None
      | Some ls \<Rightarrow> if length ls = 0 then Inr None else scan ls (length ls))"

text \<open>The marker of a log entry: group 1 of the match when the entry is a matching string.\<close>

fun marker_of :: "log_entry \<Rightarrow> js_string option" where
  "marker_of (JStr s) = String_match s"
| "marker_of v = None"

text \<open>
  The specification's reading of the function, for comparison with the loop: the marker
  of the latest entry that has one.
\<close>

fun latest_marker :: "log_entry list \<Rightarrow> js_string option" where
  "latest_marker [] = None"
| "latest_marker (e # es) =
     (case latest_marker es of
        Some ds \<Rightarrow> Some ds
      | None \<Rightarrow> marker_of e)"

definition clamp_percent :: "int \<Rightarrow> int" where
  "clamp_percent v = max 0 (min 100 v)"

section \<open>Jobs as the front end receives them\<close>

text \<open>
  The fields of a job of \<open>GET /builds\<close> that the components read. A field is \<open>None\<close>
  when the job object does not have it (\<open>undefined\<close>) or it is \<open>null\<close>. \<open>timestamp\<close>
  is a number; \<open>progress\<close> is the field that \<open>Queue\<close> adds to each job.
\<close>

record job =
  state :: "js_string option"
  logs :: "log_entry list option"
  timestamp :: "int option"
  progress :: "int option"





section \<open>The sort of the job list (component Jobs)\<close>

text \<open>
  What \<open>stateOrder[a.state]\<close> can evaluate to. \<open>stateOrder\<close> is an object literal, so a
  key that is not one of its own four is looked up in \<open>Object.prototype\<close>: the names
  below yield a function (or, for \<open>__proto__\<close>, the prototype object), written
  \<open>Inherited\<close> with the name that identifies the object.
\<close>

datatype js_value = Num int | Inherited js_string | Undefined

definition Object_prototype_keys :: "js_string list" where
  "Object_prototype_keys =
     map js [''constructor'', ''__defineGetter__'', ''__defineSetter__'', ''hasOwnProperty'',
             ''__lookupGetter__'', ''__lookupSetter__'', ''isPrototypeOf'',
             ''propertyIsEnumerable'', ''toString'', ''valueOf'', ''__proto__'',
             ''toLocaleString'']"

text \<open>The property key of \<open>a.state\<close>: a missing state is the key \<open>undefined\<close>.\<close>

definition property_key :: "js_string option \<Rightarrow> js_string" where
  "property_key st = (case st of None \<Rightarrow> js ''undefined'' | Some s \<Rightarrow> s)"

definition stateOrder :: "js_string \<Rightarrow> js_value" where
  "stateOrder k =
     (if k = js ''running'' then Num 0
      else if k = js ''queued'' then Num 1
      else if k = js ''done'' then Num 2
      else if k = js ''error'' then Num 3
      else if k \<in> set Object_prototype_keys then Inherited k
      else Undefined)"

text \<open>\<open>v ?? d\<close> with a numeric default.\<close>

definition nullish :: "js_value \<Rightarrow> int \<Rightarrow> js_value" where
  "nullish v d = (case v of Undefined \<Rightarrow> Num d | _ \<Rightarrow> v)"

text \<open>\<open>stateOrder[a.state] ?? 4\<close>.\<close>

definition stateRank :: "job \<Rightarrow> js_value" where
  "stateRank a = nullish (stateOrder (property_key (state a))) 4"

text \<open>
  \<open>x - y\<close>: the difference of two numbers; a function or an object converts to \<open>NaN\<close>,
  and so does \<open>undefined\<close>. \<open>None\<close> is \<open>NaN\<close>.
\<close>

fun js_minus :: "js_value \<Rightarrow> js_value \<Rightarrow> int option" where
  "js_minus (Num x) (Num y) = Some (x - y)"
| "js_minus x y = None"

text \<open>\<open>a.timestamp || 0\<close>: a missing timestamp, and the falsy number 0, give 0.\<close>

definition or_zero :: "int option \<Rightarrow> int" where
  "or_zero t = (case t of None \<Rightarrow> 0 | Some n \<Rightarrow> if n = 0 then 0 else n)"

text \<open>The comparator handed to \<open>sort\<close>.\<close>

definition comparefn :: "job \<Rightarrow> job \<Rightarrow> int option" where
  "comparefn a b =
     (let stateA = stateRank a;
          stateB = stateRank b
      in if stateA \<noteq> stateB then js_minus stateA stateB
         else Some (or_zero (timestamp b) - or_zero (timestamp a)))"

text \<open>\<open>SortCompare\<close> of \<open>Array.prototype.sort\<close>: a \<open>NaN\<close> from the comparator counts as 0.\<close>

definition SortCompare :: "('a \<Rightarrow> 'a \<Rightarrow> int option) \<Rightarrow> 'a \<Rightarrow> 'a \<Rightarrow> int" where
  "SortCompare f x y = (case f x y of None \<Rightarrow> 0 | Some v \<Rightarrow> v)"

text \<open>
  \<open>Array.prototype.sort\<close> is a stable sort: when the comparator is consistent, the
  result is the one permutation in which \<open>x\<close> stands before \<open>y\<close> whenever the comparator
  is negative on them, and elements it calls equal keep their order. That result is
  computed here by stable insertion. (With an inconsistent comparator the language
  leaves the order to the engine; no statement below depends on such a list.)
\<close>

fun place :: "('a \<Rightarrow> 'a \<Rightarrow> int) \<Rightarrow> 'a \<Rightarrow> 'a list \<Rightarrow> 'a list" where
  "place c x [] = [x]"
| "place c x (y # ys) = (if c x y \<le> 0 then x # y # ys else y # place c x ys)"

fun Array_sort :: "('a \<Rightarrow> 'a \<Rightarrow> int) \<Rightarrow> 'a list \<Rightarrow> 'a list" where
  "Array_sort c [] = []"
| "Array_sort c (x # xs) = place c x (Array_sort c xs)"

text \<open>
  A comparator is consistent on a set of elements when "not after" (\<open>c a b \<le> 0\<close>) is
  total and transitive there; this is what the language asks of a comparator for the
  result of \<open>sort\<close> to be determined.
\<close>

definition consistent_on :: "('a \<Rightarrow> 'a \<Rightarrow> int) \<Rightarrow> 'a set \<Rightarrow> bool" where
  "consistent_on c S =
     ((\<forall>a \<in> S. \<forall>b \<in> S. c a b \<le> 0 \<or> c b a \<le> 0) \<and>
      (\<forall>a \<in> S. \<forall>b \<in> S. \<forall>d \<in> S. c a b \<le> 0 \<and> c b d \<le> 0 \<longrightarrow> c a d \<le> 0))"

text \<open>\<open>[...r.data].sort((a, b) => ...)\<close>.\<close>

definition sortJobs :: "job list \<Rightarrow> job list" where
  "sortJobs jobs = Array_sort (SortCompare comparefn) jobs"


section \<open>Build tags (the build form)\<close>

text \<open>\<open>String.prototype.trim\<close>: white space and line terminators go, at both ends.\<close>

definition trim :: "js_string \<Rightarrow> js_string" where
  "trim s = rev (dropWhile is_whitespace (rev (dropWhile is_whitespace s)))"

definition is_word_char :: "nat \<Rightarrow> bool" where
  "is_word_char c = ((65 \<le> c \<and> c \<le> 90) \<or> (97 \<le> c \<and> c \<le> 122) \<or> is_digit c \<or> c = 95)"

text \<open>\<open>/^[A-Za-z0-9_][A-Za-z0-9_.-]*$/.test(t)\<close>.\<close>

definition tag_pattern :: "js_string \<Rightarrow> bool" where
  "tag_pattern t =
     (case t of
        [] \<Rightarrow> False
      | c # cs \<Rightarrow> is_word_char c \<and> list_all (\<lambda>x. is_word_char x \<or> x = 46 \<or> x = 45) cs)"

text \<open>The object \<open>{ ok, value }\<close> that \<open>validateTag\<close> returns.\<close>

record tag_check =
  ok :: bool
  tvalue :: js_string

definition validateTag :: "js_string option \<Rightarrow> tag_check" where
  "validateTag raw =
     (let t = trim (case raw of None \<Rightarrow> [] | Some r \<Rightarrow> if r = [] then [] else r)
      in if length t = 0 then \<lparr>ok = True, tvalue = []\<rparr>
         else \<lparr>ok = (length t \<le> 128 \<and> tag_pattern t), tvalue = t\<rparr>)"

text \<open>
  The reading of the clock by \<open>new Date()\<close>, as its six UTC getters return it
  (\<open>getUTCMonth\<close> counts from 0).
\<close>

record date =
  getUTCFullYear :: int
  getUTCMonth :: int
  getUTCDate :: int
  getUTCHours :: int
  getUTCMinutes :: int
  getUTCSeconds :: int

text \<open>The ranges the getters keep; the year is any year a \<open>Date\<close> can hold.\<close>

definition valid_date :: "date \<Rightarrow> bool" where
  "valid_date d =
     (- 271821 \<le> getUTCFullYear d \<and> getUTCFullYear d \<le> 275760 \<and>
      0 \<le> getUTCMonth d \<and> getUTCMonth d \<le> 11 \<and>
      1 \<le> getUTCDate d \<and> getUTCDate d \<le> 31 \<and>
      0 \<le> getUTCHours d \<and> getUTCHours d \<le> 23 \<and>
      0 \<le> getUTCMinutes d \<and> getUTCMinutes d \<le> 59 \<and>
      0 \<le> getUTCSeconds d \<and> getUTCSeconds d \<le> 59)"

fun digits_of :: "nat \<Rightarrow> js_string" where
  "digits_of n = (if n < 10 then [48 + n] else digits_of (n div 10) @ [48 + n mod 10])"

text \<open>\<open>String(n)\<close> for an integer: its decimal digits, after a minus sign when negative.\<close>

definition String :: "int \<Rightarrow> js_string" where
  "String n = (if n < 0 then 45 # digits_of (nat (- n)) else digits_of (nat n))"

definition padStart :: "js_string \<Rightarrow> nat \<Rightarrow> nat \<Rightarrow> js_string" where
  "padStart s n c = replicate (n - length s) c @ s"

definition pad :: "int \<Rightarrow> js_string" where
  "pad n = padStart (String n) 2 48"

definition generateTag :: "date \<Rightarrow> js_string" where
  "generateTag d =
     (let y = String (getUTCFullYear d);
          m = pad (getUTCMonth d + 1);
          day = pad (getUTCDate d);
          hh = pad (getUTCHours d);
          mm = pad (getUTCMinutes d);
          ss = pad (getUTCSeconds d)
      in y @ m @ day @ [45] @ hh @ mm @ ss)"

text \<open>
  The form \<open>yyyyMMdd-HHmmss\<close> in the specification's words, for comparison with
  \<open>generateTag\<close>: a field written with exactly two, or four, decimal digits.
\<close>

definition two_digits :: "int \<Rightarrow> js_string" where
  "two_digits n = [48 + nat (n div 10), 48 + nat (n mod 10)]"

definition four_digits :: "int \<Rightarrow> js_string" where
  "four_digits n =
     [48 + nat (n div 1000), 48 + nat (n div 100 mod 10), 48 + nat (n div 10 mod 10), 48 + nat (n mod 10)]"

text \<open>\<open>/^\d{8}-\d{6}$/\<close>.\<close>

definition auto_pattern :: "js_string \<Rightarrow> bool" where
  "auto_pattern t =
     (length t = 15 \<and> list_all is_digit (take 8 t) \<and> t ! 8 = 45 \<and> list_all is_digit (drop 9 t))"

text \<open>
  The state of the form that \<open>submit\<close> reads before it builds the request, and what
  \<open>submit\<close> does with it: one of the two alerts, the tag error (nothing is sent), or
  \<open>POST /build\<close> with the final tag.
\<close>

record build_form =
  branchesLoaded :: bool
  branches :: "js_string list"
  branch :: js_string
  tag :: js_string

datatype submit_result = AlertNoBranches | AlertSelectBranch | TagError | PostBuild js_string

definition submit :: "build_form \<Rightarrow> date \<Rightarrow> submit_result" where
  "submit f now =
     (if branchesLoaded f \<and> length (branches f) = 0 then AlertNoBranches
      else if branch f = [] then AlertSelectBranch
      else
        (let r = validateTag (Some (tag f)) in
         if \<not> ok r then TagError
         else
           (let tagTrimmed = tvalue r;
                finalTag = (if tagTrimmed \<noteq> [] then tagTrimmed else generateTag now)
            in PostBuild finalTag)))"

section \<open>The Re-enqueue Controller\<close>

text \<open>
  Modelled from the spec: the states of a job (spec 3, 4.4). The store and the
  controller are code of the Python back end, which is not among the sources.
\<close>

datatype job_state = Queued | Running | Done | Error

text \<open>
  Modelled from the spec: the job record of the store (spec 3): an id, one of the four
  states and the log.
\<close>

record stored_job =
  job_id :: nat
  job_state :: job_state
  job_logs :: "js_string list"

text \<open>
  Modelled from the spec: the reasons for skipping a job (spec 4.5). A done job and a
  queued job are skipped "with an explicit reason"; a running job that is not stalled is
  not eligible either.
\<close>

datatype skip_reason = Already_done | Already_queued | Still_running

text \<open>
  Modelled from the spec: the eligibility policy of \<open>reenqueue_one\<close> (spec 4.5): jobs
  in \<open>error\<close>, and running jobs that are stalled, are eligible; \<open>None\<close> means eligible.
  The staleness test is left to the design by the spec and is a parameter here.
\<close>

definition eligibility :: "(stored_job \<Rightarrow> bool) \<Rightarrow> stored_job \<Rightarrow> skip_reason option" where
  "eligibility stalled j =
     (case job_state j of
        Error \<Rightarrow> None
      | Running \<Rightarrow> if stalled j then None else Some Still_running
      | Done \<Rightarrow> Some Already_done
      | Queued \<Rightarrow> Some Already_queued)"

text \<open>
  Modelled from the spec: the result for one job (spec 4.5, 6): requeued, skipped with
  a reason, or errored with the error detail.
\<close>

datatype outcome = Requeued | Skipped skip_reason | Errored string

text \<open>
  Modelled from the spec: \<open>reenqueue_one\<close> (spec 4.5). An eligible job is reset to
  \<open>queued\<close> and handed to the Queue Adapter; \<open>resubmit\<close> is that step, which gives the
  error detail when it fails. The log is kept, and a line that separates the attempts is
  appended. A job that is skipped, or whose resubmission fails, is left as it was.
\<close>

definition reenqueue_one ::
  "(stored_job \<Rightarrow> bool) \<Rightarrow> (nat \<Rightarrow> string option) \<Rightarrow> stored_job \<Rightarrow> outcome \<times> stored_job" where
  "reenqueue_one stalled resubmit j =
     (case eligibility stalled j of
        Some r \<Rightarrow> (Skipped r, j)
      | None \<Rightarrow>
         (case resubmit (job_id j) of
            Some detail \<Rightarrow> (Errored detail, j)
          | None \<Rightarrow>
             (Requeued, j\<lparr>job_state := Queued, job_logs := job_logs j @ [js ''--- re-enqueued ---'']\<rparr>)))"

text \<open>
  Modelled from the spec: the counts \<open>{found, requeued, skipped, errors}\<close> of the
  aggregate result (spec 6).
\<close>

record counts =
  found :: nat
  requeued :: nat
  skipped :: nat
  errors :: nat

text \<open>
  Modelled from the spec: the aggregate result of \<open>POST /queue/reenqueue\<close> (spec 6):
  \<open>{count: {found, requeued, skipped, errors}, requeued: [ids], skipped: [{id, reason}],
  errors: [{id, error}]}\<close>.
\<close>

record reenqueue_result =
  count' :: counts
  requeued_ids :: "nat list"
  skipped_jobs :: "(nat \<times> skip_reason) list"
  errored_jobs :: "(nat \<times> string) list"

text \<open>
  Modelled from the spec: the bookkeeping of \<open>reenqueue_all\<close> for one outcome: the job
  goes to one of the three lists and its counter goes up.
\<close>

definition record_outcome :: "nat \<Rightarrow> outcome \<Rightarrow> reenqueue_result \<Rightarrow> reenqueue_result" where
  "record_outcome i out r =
     (case out of
        Requeued \<Rightarrow>
          r\<lparr>count' := (count' r)\<lparr>requeued := Suc (requeued (count' r))\<rparr>,
            requeued_ids := requeued_ids r @ [i]\<rparr>
      | Skipped why \<Rightarrow>
          r\<lparr>count' := (count' r)\<lparr>skipped := Suc (skipped (count' r))\<rparr>,
            skipped_jobs := skipped_jobs r @ [(i, why)]\<rparr>
      | Errored detail \<Rightarrow>
          r\<lparr>count' := (count' r)\<lparr>errors := Suc (errors (count' r))\<rparr>,
            errored_jobs := errored_jobs r @ [(i, detail)]\<rparr>)"

text \<open>
  Modelled from the spec: the loop of \<open>reenqueue_all\<close> (spec 4.5) over the jobs of
  \<open>list()\<close>: each job gets the treatment of \<open>reenqueue_one\<close>, whatever happened to the
  jobs before it. The store after the loop holds the jobs as \<open>reenqueue_one\<close> left them.
\<close>

fun reenqueue_loop ::
  "(stored_job \<Rightarrow> bool) \<Rightarrow> (nat \<Rightarrow> string option) \<Rightarrow> stored_job list \<Rightarrow>
   reenqueue_result \<Rightarrow> reenqueue_result \<times> stored_job list" where
  "reenqueue_loop stalled resubmit [] r = (r, [])"
| "reenqueue_loop stalled resubmit (j # rest) r =
     (case reenqueue_one stalled resubmit j of
        (out, j') \<Rightarrow>
          (case reenqueue_loop stalled resubmit rest (record_outcome (job_id j) out r) of
             (r', rest') \<Rightarrow> (r', j' # rest')))"

text \<open>
  Modelled from the spec: \<open>reenqueue_all\<close> (spec 4.5): \<open>found\<close> is the number of jobs
  in \<open>list()\<close>, and the three lists start empty.
\<close>

definition reenqueue_all ::
  "(stored_job \<Rightarrow> bool) \<Rightarrow> (nat \<Rightarrow> string option) \<Rightarrow> stored_job list \<Rightarrow>
   reenqueue_result \<times> stored_job list" where
  "reenqueue_all stalled resubmit jobs =
     reenqueue_loop stalled resubmit jobs
       \<lparr>count' = \<lparr>found = length jobs, requeued = 0, skipped = 0, errors = 0\<rparr>,
        requeued_ids = [], skipped_jobs = [], errored_jobs = []\<rparr>"

section \<open>Facts about the marker and the scan\<close>

lemma after_prefix_append: "after_prefix p s = Some r \<longleftrightarrow> s = p @ r"
  by (induction p s rule: after_prefix.induct) auto

lemma match_here_digits:
  assumes "match_here s = Some ds"
  shows "ds \<noteq> [] \<and> length ds \<le> 3 \<and> list_all is_digit ds \<and> (\<exists>post. s = js ''PROGRESS:'' @ ds @ post)"
proof -
  from assms obtain r where r: "after_prefix (js ''PROGRESS:'') s = Some r"
    and ds: "ds = take 3 (takeWhile is_digit r)" and ne: "ds \<noteq> []"
    by (auto simp: match_here_def Let_def split: option.splits if_splits)
  have "set ds \<subseteq> set (takeWhile is_digit r)"
    unfolding ds by (rule set_take_subset)
  hence dig: "list_all is_digit ds"
    by (auto simp: list_all_iff dest: set_takeWhileD)
  have "r = takeWhile is_digit r @ dropWhile is_digit r" by simp
  also have "takeWhile is_digit r = ds @ drop 3 (takeWhile is_digit r)"
    unfolding ds by simp
  finally have "\<exists>post. r = ds @ post" by (metis append.assoc)
  with r have "\<exists>post. s = js ''PROGRESS:'' @ ds @ post"
    by (auto simp: after_prefix_append)
  with ne dig show ?thesis by (simp add: ds)
qed

lemma String_match_digits:
  "String_match s = Some ds \<Longrightarrow>
     ds \<noteq> [] \<and> length ds \<le> 3 \<and> list_all is_digit ds \<and>
     (\<exists>pre post. s = pre @ js ''PROGRESS:'' @ ds @ post)"
proof (induction s)
  case Nil
  hence "match_here [] = Some ds" by simp
  from match_here_digits[OF this] show ?case by (simp add: js_def)
next
  case (Cons c cs)
  show ?case
  proof (cases "match_here (c # cs)")
    case (Some d)
    with Cons.prems have "match_here (c # cs) = Some ds" by simp
    from match_here_digits[OF this] show ?thesis by (metis append_Nil)
  next
    case None
    with Cons.prems have "String_match cs = Some ds" by simp
    from Cons.IH[OF this] obtain pre post where
      "ds \<noteq> []" "length ds \<le> 3" "list_all is_digit ds" "cs = pre @ js ''PROGRESS:'' @ ds @ post"
      by blast
    thus ?thesis by (metis append_Cons)
  qed
qed

lemma parseInt_digits:
  assumes "ds \<noteq> []" "list_all is_digit ds"
  shows "parseInt ds = Some (decimal ds)"
proof -
  obtain c r where cr: "ds = c # r" using assms(1) by (cases ds) auto
  with assms(2) have c: "is_digit c" by simp
  hence nw: "\<not> is_whitespace c" and ns: "c \<noteq> 45" "c \<noteq> 43"
    by (auto simp: is_digit_def is_whitespace_def)
  have tw: "takeWhile is_digit ds = ds"
    using assms(2) by (simp add: list_all_iff)
  show ?thesis
    using nw ns tw assms(1) by (simp add: parseInt_def cr Let_def)
qed

lemma marker_parseInt: "marker_of e = Some ds \<Longrightarrow> parseInt ds = Some (decimal ds)"
  by (cases e) (auto dest: String_match_digits intro: parseInt_digits)

text \<open>One step of the loop, by what the entry at the index is.\<close>

lemma scan_step:
  "scan ls (Suc i) =
     (case marker_of (ls ! i) of
        None \<Rightarrow> scan ls i
      | Some ds \<Rightarrow> Inr (Some (max 0 (min 100 (decimal ds)))))"
proof (cases "marker_of (ls ! i)")
  case None
  thus ?thesis by (cases "ls ! i") (simp_all add: Let_def)
next
  case (Some ds)
  from marker_parseInt[OF Some] have p: "parseInt ds = Some (decimal ds)" .
  from Some obtain s where s: "ls ! i = JStr s" "String_match s = Some ds"
    by (cases "ls ! i") auto
  show ?thesis using Some s p by (simp add: Let_def)
qed

lemma scan_none:
  "n \<le> length ls \<Longrightarrow> \<forall>e \<in> set (take n ls). marker_of e = None \<Longrightarrow> scan ls n = Inr None"
proof (induction n)
  case 0
  show ?case by simp
next
  case (Suc n)
  hence lt: "n < length ls" by simp
  hence t: "take (Suc n) ls = take n ls @ [ls ! n]"
    by (simp add: take_Suc_conv_app_nth)
  with Suc.prems have "marker_of (ls ! n) = None" "\<forall>e \<in> set (take n ls). marker_of e = None"
    by auto
  with Suc.IH lt show ?case by (simp add: scan_step del: scan.simps)
qed

lemma scan_append: "n \<le> length xs \<Longrightarrow> scan (xs @ ys) n = scan xs n"
proof (induction n)
  case 0
  show ?case by simp
next
  case (Suc n)
  hence "(xs @ ys) ! n = xs ! n" by (simp add: nth_append)
  with Suc show ?case by (simp add: scan_step split: option.splits del: scan.simps)
qed

lemma scan_latest:
  "marker_of e = Some ds \<Longrightarrow> \<forall>x \<in> set post. marker_of x = None \<Longrightarrow>
   scan (pre @ e # post) (length pre + Suc (length post)) = Inr (Some (max 0 (min 100 (decimal ds))))"
proof (induction post rule: rev_induct)
  case Nil
  thus ?case by (simp add: scan_step del: scan.simps)
next
  case (snoc x xs)
  from snoc.prems have x: "marker_of x = None" and xs: "\<forall>y \<in> set xs. marker_of y = None"
    by auto
  have idx: "(pre @ e # xs @ [x]) ! (length pre + Suc (length xs)) = x"
    by (simp add: nth_append)
  have "scan (pre @ e # xs @ [x]) (length pre + Suc (length (xs @ [x])))
      = scan (pre @ e # xs @ [x]) (Suc (length pre + Suc (length xs)))" by simp
  also have "\<dots> = scan (pre @ e # xs @ [x]) (length pre + Suc (length xs))"
    using x idx by (simp only: scan_step) simp
  also have "\<dots> = scan ((pre @ e # xs) @ [x]) (length pre + Suc (length xs))" by simp
  also have "\<dots> = scan (pre @ e # xs) (length pre + Suc (length xs))"
    by (rule scan_append) simp
  also have "\<dots> = Inr (Some (max 0 (min 100 (decimal ds))))"
    using snoc.IH[OF snoc.prems(1) xs] .
  finally show ?case .
qed

lemma latest_marker_snoc:
  "latest_marker (xs @ [x]) = (case marker_of x of Some ds \<Rightarrow> Some ds | None \<Rightarrow> latest_marker xs)"
  by (induction xs) (auto split: option.splits)

lemma latest_marker_append:
  "latest_marker (xs @ ys) = (case latest_marker ys of Some ds \<Rightarrow> Some ds | None \<Rightarrow> latest_marker xs)"
  by (induction xs) (auto split: option.splits)

lemma latest_marker_None: "latest_marker xs = None \<longleftrightarrow> (\<forall>e \<in> set xs. marker_of e = None)"
  by (induction xs) (auto split: option.splits)

lemma scan_latest_marker:
  "scan ls (length ls) = Inr (map_option (\<lambda>ds. clamp_percent (decimal ds)) (latest_marker ls))"
proof (induction ls rule: rev_induct)
  case Nil
  show ?case by simp
next
  case (snoc x xs)
  have "scan (xs @ [x]) (length (xs @ [x])) = scan (xs @ [x]) (Suc (length xs))" by simp
  also have "\<dots> = (case marker_of x of
                       None \<Rightarrow> scan (xs @ [x]) (length xs)
                     | Some ds \<Rightarrow> Inr (Some (max 0 (min 100 (decimal ds)))))"
    by (simp only: scan_step) simp
  also have "scan (xs @ [x]) (length xs) = scan xs (length xs)"
    by (rule scan_append) simp
  finally show ?case
    using snoc.IH by (simp add: latest_marker_snoc clamp_percent_def split: option.splits)
qed

lemma parse_latest_marker:
  "parseProgressFromLogs (Some ls) = Inr (map_option (\<lambda>ds. clamp_percent (decimal ds)) (latest_marker ls))"
  by (simp add: parseProgressFromLogs_def scan_latest_marker)

lemma clamp_percent_range: "0 \<le> clamp_percent v \<and> clamp_percent v \<le> 100"
  by (simp add: clamp_percent_def)

lemma typeof_not_string: "typeof e \<noteq> ''string'' \<Longrightarrow> marker_of e = None"
  by (cases e) simp_all

section \<open>The marker pattern, said without the matcher\<close>

lemma is_digit_literal: "is_digit d \<longleftrightarrow> d \<in> set (js ''0123456789'')"
proof
  assume "is_digit d"
  hence "48 \<le> d" "d \<le> 57" by (simp_all add: is_digit_def)
  hence "d = 48 \<or> d = 49 \<or> d = 50 \<or> d = 51 \<or> d = 52 \<or> d = 53 \<or> d = 54 \<or> d = 55 \<or> d = 56 \<or> d = 57"
    by arith
  thus "d \<in> set (js ''0123456789'')" by (auto simp: js_def)
next
  assume "d \<in> set (js ''0123456789'')"
  thus "is_digit d" by (auto simp: js_def is_digit_def)
qed

lemma all_digits_literal: "list_all is_digit ds \<longleftrightarrow> set ds \<subseteq> set (js ''0123456789'')"
  by (auto simp: list_all_iff is_digit_literal)

lemma PROGRESS_literal: "js ''PROGRESS:'' = [80, 82, 79, 71, 82, 69, 83, 83, 58]"
  by (simp add: js_def)

text \<open>The expression tried at one position.\<close>

lemma match_here_Some_iff:
  "match_here s = Some ds \<longleftrightarrow>
     (\<exists>b. s = js ''PROGRESS:'' @ ds @ b \<and> ds \<noteq> [] \<and> list_all is_digit ds \<and> length ds \<le> 3
          \<and> (length ds = 3 \<or> b = [] \<or> \<not> is_digit (hd b)))"
proof
  assume m: "match_here s = Some ds"
  then obtain r where r: "s = js ''PROGRESS:'' @ r"
    and ds: "ds = take 3 (takeWhile is_digit r)" and ne: "ds \<noteq> []"
    by (auto simp: match_here_def Let_def after_prefix_append split: option.splits if_splits)
  let ?b = "drop 3 (takeWhile is_digit r) @ dropWhile is_digit r"
  have "r = takeWhile is_digit r @ dropWhile is_digit r" by simp
  also have "takeWhile is_digit r = ds @ drop 3 (takeWhile is_digit r)"
    unfolding ds by simp
  finally have split: "r = ds @ ?b" by simp
  have "set ds \<subseteq> set (takeWhile is_digit r)" unfolding ds by (rule set_take_subset)
  hence dig: "list_all is_digit ds" by (auto simp: list_all_iff dest: set_takeWhileD)
  have len: "length ds \<le> 3" unfolding ds by simp
  have stop: "length ds = 3 \<or> ?b = [] \<or> \<not> is_digit (hd ?b)"
  proof (cases "length ds = 3")
    case False
    with len have "length (takeWhile is_digit r) < 3" unfolding ds by simp
    hence d0: "drop 3 (takeWhile is_digit r) = []" by simp
    show ?thesis
    proof (cases "dropWhile is_digit r = []")
      case True
      with d0 show ?thesis by simp
    next
      case False
      hence "\<not> is_digit (hd (dropWhile is_digit r))" by (rule hd_dropWhile)
      with d0 show ?thesis by simp
    qed
  qed simp
  from r split ne dig len stop
  show "\<exists>b. s = js ''PROGRESS:'' @ ds @ b \<and> ds \<noteq> [] \<and> list_all is_digit ds \<and> length ds \<le> 3
          \<and> (length ds = 3 \<or> b = [] \<or> \<not> is_digit (hd b))"
    by blast
next
  assume "\<exists>b. s = js ''PROGRESS:'' @ ds @ b \<and> ds \<noteq> [] \<and> list_all is_digit ds \<and> length ds \<le> 3
          \<and> (length ds = 3 \<or> b = [] \<or> \<not> is_digit (hd b))"
  then obtain b where s: "s = js ''PROGRESS:'' @ ds @ b" and ne: "ds \<noteq> []"
    and dig: "list_all is_digit ds" and len: "length ds \<le> 3"
    and stop: "length ds = 3 \<or> b = [] \<or> \<not> is_digit (hd b)" by blast
  from s have ap: "after_prefix (js ''PROGRESS:'') s = Some (ds @ b)"
    by (simp add: after_prefix_append)
  from dig have tw: "takeWhile is_digit (ds @ b) = ds @ takeWhile is_digit b"
    by (simp add: list_all_iff)
  have "take 3 (ds @ takeWhile is_digit b) = ds"
  proof (cases "length ds = 3")
    case True
    thus ?thesis by simp
  next
    case False
    with stop have "b = [] \<or> \<not> is_digit (hd b)" by simp
    hence "takeWhile is_digit b = []" by (cases b) auto
    with len show ?thesis by simp
  qed
  with ap tw ne show "match_here s = Some ds"
    by (simp add: match_here_def Let_def)
qed

lemma match_here_None_iff:
  "match_here s = None \<longleftrightarrow> \<not> (\<exists>d b. s = js ''PROGRESS:'' @ d # b \<and> is_digit d)"
proof
  assume n: "match_here s = None"
  show "\<not> (\<exists>d b. s = js ''PROGRESS:'' @ d # b \<and> is_digit d)"
  proof
    assume "\<exists>d b. s = js ''PROGRESS:'' @ d # b \<and> is_digit d"
    then obtain d b where s: "s = js ''PROGRESS:'' @ d # b" and d: "is_digit d" by blast
    from s have "after_prefix (js ''PROGRESS:'') s = Some (d # b)"
      by (simp add: after_prefix_append)
    with d have "match_here s \<noteq> None"
      by (simp add: match_here_def Let_def)
    with n show False by simp
  qed
next
  assume a: "\<not> (\<exists>d b. s = js ''PROGRESS:'' @ d # b \<and> is_digit d)"
  show "match_here s = None"
  proof (cases "after_prefix (js ''PROGRESS:'') s")
    case None
    thus ?thesis by (simp add: match_here_def)
  next
    case (Some r)
    hence s: "s = js ''PROGRESS:'' @ r" by (simp add: after_prefix_append)
    with a have "r = [] \<or> \<not> is_digit (hd r)" by (cases r) auto
    hence "takeWhile is_digit r = []" by (cases r) auto
    with Some show ?thesis by (simp add: match_here_def Let_def)
  qed
qed


text \<open>The leftmost match in a string.\<close>

lemma String_match_None_iff:
  "String_match s = None \<longleftrightarrow> \<not> (\<exists>a d b. s = a @ js ''PROGRESS:'' @ d # b \<and> is_digit d)"
proof (induction s)
  case Nil
  have "match_here [] = None" by (simp add: match_here_def js_def)
  thus ?case by (simp add: js_def)
next
  case (Cons c cs)
  show ?case
  proof (cases "match_here (c # cs)")
    case (Some d0)
    hence "\<exists>d b. c # cs = js ''PROGRESS:'' @ d # b \<and> is_digit d"
      using match_here_None_iff[of "c # cs"] by simp
    then obtain d b where "c # cs = [] @ js ''PROGRESS:'' @ d # b \<and> is_digit d" by auto
    hence "\<exists>a d b. c # cs = a @ js ''PROGRESS:'' @ d # b \<and> is_digit d" by blast
    with Some show ?thesis by simp
  next
    case None
    hence here: "\<not> (\<exists>d b. c # cs = js ''PROGRESS:'' @ d # b \<and> is_digit d)"
      by (simp add: match_here_None_iff)
    have "(\<exists>a d b. c # cs = a @ js ''PROGRESS:'' @ d # b \<and> is_digit d)
          \<longleftrightarrow> (\<exists>a d b. cs = a @ js ''PROGRESS:'' @ d # b \<and> is_digit d)"
    proof
      assume "\<exists>a d b. c # cs = a @ js ''PROGRESS:'' @ d # b \<and> is_digit d"
      then obtain a d b where e: "c # cs = a @ js ''PROGRESS:'' @ d # b" and d: "is_digit d"
        by blast
      from e d here have "a \<noteq> []" by auto
      then obtain a0 where "a = c # a0" using e by (cases a) auto
      with e have "cs = a0 @ js ''PROGRESS:'' @ d # b" by simp
      with d show "\<exists>a d b. cs = a @ js ''PROGRESS:'' @ d # b \<and> is_digit d" by blast
    next
      assume "\<exists>a d b. cs = a @ js ''PROGRESS:'' @ d # b \<and> is_digit d"
      then obtain a d b where "cs = a @ js ''PROGRESS:'' @ d # b" and d: "is_digit d" by blast
      hence "c # cs = (c # a) @ js ''PROGRESS:'' @ d # b" by simp
      with d show "\<exists>a d b. c # cs = a @ js ''PROGRESS:'' @ d # b \<and> is_digit d" by blast
    qed
    with None Cons.IH show ?thesis by simp
  qed
qed

lemma String_match_Some_iff:
  "String_match s = Some ds \<longleftrightarrow>
     (\<exists>a b. s = a @ js ''PROGRESS:'' @ ds @ b \<and> ds \<noteq> [] \<and> list_all is_digit ds \<and> length ds \<le> 3
            \<and> (length ds = 3 \<or> b = [] \<or> \<not> is_digit (hd b))
            \<and> (\<forall>a' d b'. s = a' @ js ''PROGRESS:'' @ d # b' \<and> is_digit d \<longrightarrow> length a \<le> length a'))"
  (is "_ \<longleftrightarrow> ?R s")
proof (induction s)
  case Nil
  have "match_here [] = None" by (simp add: match_here_def js_def)
  moreover have "\<not> ?R []" by (simp add: js_def)
  ultimately show ?case by simp
next
  case (Cons c cs)
  show ?case
  proof (cases "match_here (c # cs)")
    case (Some d0)
    hence sm: "String_match (c # cs) = Some d0" by simp
    from Some obtain b0 where h0: "c # cs = js ''PROGRESS:'' @ d0 @ b0" "d0 \<noteq> []" "list_all is_digit d0"
      "length d0 \<le> 3" "length d0 = 3 \<or> b0 = [] \<or> \<not> is_digit (hd b0)"
      using match_here_Some_iff[of "c # cs" d0] by blast
    show ?thesis
    proof
      assume "String_match (c # cs) = Some ds"
      with sm have "ds = d0" by simp
      with h0 have "c # cs = [] @ js ''PROGRESS:'' @ ds @ b0 \<and> ds \<noteq> [] \<and> list_all is_digit ds
          \<and> length ds \<le> 3 \<and> (length ds = 3 \<or> b0 = [] \<or> \<not> is_digit (hd b0))
          \<and> (\<forall>a' d b'. c # cs = a' @ js ''PROGRESS:'' @ d # b' \<and> is_digit d \<longrightarrow> length ([]::nat list) \<le> length a')"
        by simp
      thus "?R (c # cs)" by blast
    next
      assume "?R (c # cs)"
      then obtain a b where e: "c # cs = a @ js ''PROGRESS:'' @ ds @ b" and g: "ds \<noteq> []"
        "list_all is_digit ds" "length ds \<le> 3" "length ds = 3 \<or> b = [] \<or> \<not> is_digit (hd b)"
        and left: "\<forall>a' d b'. c # cs = a' @ js ''PROGRESS:'' @ d # b' \<and> is_digit d \<longrightarrow> length a \<le> length a'"
        by blast
      from h0(2) obtain d1 r1 where d0: "d0 = d1 # r1" by (cases d0) auto
      with h0(3) have "is_digit d1" by simp
      moreover from h0(1) d0 have "c # cs = [] @ js ''PROGRESS:'' @ d1 # (r1 @ b0)" by simp
      ultimately have "length a \<le> length ([]::nat list)" using left by blast
      hence "a = []" by simp
      with e g have "match_here (c # cs) = Some ds"
        using match_here_Some_iff[of "c # cs" ds] by auto
      with Some sm show "String_match (c # cs) = Some ds" by simp
    qed
  next
    case None
    hence sm: "String_match (c # cs) = String_match cs" by simp
    from None have here: "\<not> (\<exists>d b. c # cs = js ''PROGRESS:'' @ d # b \<and> is_digit d)"
      by (simp add: match_here_None_iff)
    have "?R (c # cs) \<longleftrightarrow> ?R cs"
    proof
      assume "?R (c # cs)"
      then obtain a b where e: "c # cs = a @ js ''PROGRESS:'' @ ds @ b" and g: "ds \<noteq> []"
        "list_all is_digit ds" "length ds \<le> 3" "length ds = 3 \<or> b = [] \<or> \<not> is_digit (hd b)"
        and left: "\<forall>a' d b'. c # cs = a' @ js ''PROGRESS:'' @ d # b' \<and> is_digit d \<longrightarrow> length a \<le> length a'"
        by blast
      from g(1) obtain d1 r1 where ds: "ds = d1 # r1" by (cases ds) auto
      with g(2) have d1: "is_digit d1" by simp
      have "a \<noteq> []"
      proof
        assume "a = []"
        with e ds have "c # cs = js ''PROGRESS:'' @ d1 # (r1 @ b)" by simp
        with d1 here show False by blast
      qed
      then obtain a0 where a: "a = c # a0" using e by (cases a) auto
      with e have e0: "cs = a0 @ js ''PROGRESS:'' @ ds @ b" by simp
      have "\<forall>a' d b'. cs = a' @ js ''PROGRESS:'' @ d # b' \<and> is_digit d \<longrightarrow> length a0 \<le> length a'"
      proof (intro allI impI)
        fix a' d b' assume h: "cs = a' @ js ''PROGRESS:'' @ d # b' \<and> is_digit d"
        hence "c # cs = (c # a') @ js ''PROGRESS:'' @ d # b' \<and> is_digit d" by simp
        with left have "length a \<le> length (c # a')" by blast
        with a show "length a0 \<le> length a'" by simp
      qed
      with e0 g show "?R cs" by blast
    next
      assume "?R cs"
      then obtain a b where e: "cs = a @ js ''PROGRESS:'' @ ds @ b" and g: "ds \<noteq> []"
        "list_all is_digit ds" "length ds \<le> 3" "length ds = 3 \<or> b = [] \<or> \<not> is_digit (hd b)"
        and left: "\<forall>a' d b'. cs = a' @ js ''PROGRESS:'' @ d # b' \<and> is_digit d \<longrightarrow> length a \<le> length a'"
        by blast
      from e have e1: "c # cs = (c # a) @ js ''PROGRESS:'' @ ds @ b" by simp
      have "\<forall>a' d b'. c # cs = a' @ js ''PROGRESS:'' @ d # b' \<and> is_digit d \<longrightarrow> length (c # a) \<le> length a'"
      proof (intro allI impI)
        fix a' d b' assume h: "c # cs = a' @ js ''PROGRESS:'' @ d # b' \<and> is_digit d"
        with here have "a' \<noteq> []" by auto
        then obtain a0 where a': "a' = c # a0" using h by (cases a') auto
        with h have "cs = a0 @ js ''PROGRESS:'' @ d # b' \<and> is_digit d" by simp
        with left have "length a \<le> length a0" by blast
        with a' show "length (c # a) \<le> length a'" by simp
      qed
      with e1 g show "?R (c # cs)" by blast
    qed
    with sm Cons.IH show ?thesis by simp
  qed
qed


text \<open>The marker of a log entry, in terms of the text of the entry alone.\<close>

lemma marker_of_Some_iff:
  "marker_of e = Some ds \<longleftrightarrow>
     (\<exists>s a b. e = JStr s \<and> s = a @ js ''PROGRESS:'' @ ds @ b
        \<and> ds \<noteq> [] \<and> set ds \<subseteq> set (js ''0123456789'') \<and> length ds \<le> 3
        \<and> (length ds = 3 \<or> b = [] \<or> hd b \<notin> set (js ''0123456789''))
        \<and> (\<forall>a' d b'. s = a' @ js ''PROGRESS:'' @ d # b' \<and> d \<in> set (js ''0123456789'')
               \<longrightarrow> length a \<le> length a'))"
proof (cases e)
  case (JStr s)
  show ?thesis
    unfolding JStr marker_of.simps String_match_Some_iff is_digit_literal all_digits_literal
    by simp
qed simp_all

lemma marker_of_None_iff:
  "marker_of e = None \<longleftrightarrow>
     \<not> (\<exists>s a d b. e = JStr s \<and> s = a @ js ''PROGRESS:'' @ d # b \<and> d \<in> set (js ''0123456789''))"
proof (cases e)
  case (JStr s)
  show ?thesis
    unfolding JStr marker_of.simps String_match_None_iff is_digit_literal
    by simp
qed simp_all

lemma no_marker_entries:
  "(\<forall>e \<in> set ls. marker_of e = None) \<longleftrightarrow>
     \<not> (\<exists>s a d b. JStr s \<in> set ls \<and> s = a @ js ''PROGRESS:'' @ d # b \<and> d \<in> set (js ''0123456789''))"
proof
  assume n: "\<forall>e \<in> set ls. marker_of e = None"
  show "\<not> (\<exists>s a d b. JStr s \<in> set ls \<and> s = a @ js ''PROGRESS:'' @ d # b \<and> d \<in> set (js ''0123456789''))"
  proof
    assume "\<exists>s a d b. JStr s \<in> set ls \<and> s = a @ js ''PROGRESS:'' @ d # b \<and> d \<in> set (js ''0123456789'')"
    then obtain s a d b where m: "JStr s \<in> set ls" and
      t: "s = a @ js ''PROGRESS:'' @ d # b \<and> d \<in> set (js ''0123456789'')" by blast
    from n m have "marker_of (JStr s) = None" by blast
    with t show False using marker_of_None_iff[of "JStr s"] by blast
  qed
next
  assume a: "\<not> (\<exists>s a d b. JStr s \<in> set ls \<and> s = a @ js ''PROGRESS:'' @ d # b \<and> d \<in> set (js ''0123456789''))"
  show "\<forall>e \<in> set ls. marker_of e = None"
  proof
    fix e assume e: "e \<in> set ls"
    show "marker_of e = None"
    proof (rule ccontr)
      assume "marker_of e \<noteq> None"
      hence "\<exists>s a d b. e = JStr s \<and> s = a @ js ''PROGRESS:'' @ d # b \<and> d \<in> set (js ''0123456789'')"
        by (simp add: marker_of_None_iff)
      then obtain s a d b where "e = JStr s" "s = a @ js ''PROGRESS:'' @ d # b \<and> d \<in> set (js ''0123456789'')"
        by (elim exE conjE) simp
      with e a show False by blast
    qed
  qed
qed

lemma digits_literal: "js ''0123456789'' = [48, 49, 50, 51, 52, 53, 54, 55, 56, 57]"
  by (simp add: js_def)

lemma decimal_snoc: "decimal (ds @ [d]) = 10 * decimal ds + int (d - 48)"
  by (simp add: decimal_def)

section \<open>Facts about the Progress Extractor\<close>

text \<open>
  C1. For every list of log entries, the extractor returns the integer parsed from the
  latest entry that matches the marker pattern, clamped to 0..100, whatever the entries
  without a marker before and after it are. The pattern is said here by the text alone:
  an entry has the marker digits \<open>ds\<close> exactly when it is a string in which the first
  place where \<open>PROGRESS:\<close> is followed by a digit \<open>0\<close> to \<open>9\<close> is followed by
  \<open>ds\<close>, the digits there, up to three of them; an entry has no marker exactly when it
  is not a string with \<open>PROGRESS:\<close> and a digit after it. If the string \<open>s\<close> has the
  marker digits \<open>ds\<close> and no string after it in the list contains \<open>PROGRESS:\<close> and a
  digit, the result is the decimal value of \<open>ds\<close> (which is what \<open>parseInt\<close> reads
  from \<open>ds\<close>) clamped. For the logs \<open>["a", "PROGRESS:10", "b", "PROGRESS:87", "c"]\<close>
  the result is 87, and a later line with digits but without \<open>PROGRESS:\<close> is ignored.
\<close>

theorem latest_marker_wins:
  "js ''PROGRESS:'' = [80, 82, 79, 71, 82, 69, 83, 83, 58]
   \<and> js ''0123456789'' = [48, 49, 50, 51, 52, 53, 54, 55, 56, 57]
   \<and> decimal [] = 0 \<and> (\<forall>n d. decimal (n @ [d]) = 10 * decimal n + int (d - 48))
   \<and> (\<forall>x m. marker_of x = Some m \<longleftrightarrow>
         (\<exists>s a b. x = JStr s \<and> s = a @ js ''PROGRESS:'' @ m @ b
            \<and> m \<noteq> [] \<and> set m \<subseteq> set (js ''0123456789'') \<and> length m \<le> 3
            \<and> (length m = 3 \<or> b = [] \<or> hd b \<notin> set (js ''0123456789''))
            \<and> (\<forall>a' d b'. s = a' @ js ''PROGRESS:'' @ d # b' \<and> d \<in> set (js ''0123456789'')
                   \<longrightarrow> length a \<le> length a')))
   \<and> (\<forall>x. marker_of x = None \<longleftrightarrow>
         \<not> (\<exists>s a d b. x = JStr s \<and> s = a @ js ''PROGRESS:'' @ d # b \<and> d \<in> set (js ''0123456789'')))
   \<and> (s = a @ js ''PROGRESS:'' @ ds @ b
        \<and> ds \<noteq> [] \<and> set ds \<subseteq> set (js ''0123456789'') \<and> length ds \<le> 3
        \<and> (length ds = 3 \<or> b = [] \<or> hd b \<notin> set (js ''0123456789''))
        \<and> (\<forall>a' d b'. s = a' @ js ''PROGRESS:'' @ d # b' \<and> d \<in> set (js ''0123456789'')
               \<longrightarrow> length a \<le> length a')
        \<and> \<not> (\<exists>t a' d b'. JStr t \<in> set post \<and> t = a' @ js ''PROGRESS:'' @ d # b'
               \<and> d \<in> set (js ''0123456789''))
      \<longrightarrow> parseProgressFromLogs (Some (pre @ JStr s # post))
            = Inr (Some (max 0 (min 100 (decimal ds)))))
   \<and> (marker_of e = Some ds \<and> (\<forall>x \<in> set post. marker_of x = None) \<longrightarrow>
      parseInt ds = Some (decimal ds) \<and>
      parseProgressFromLogs (Some (pre @ e # post)) = Inr (Some (max 0 (min 100 (decimal ds)))))
   \<and> parseProgressFromLogs
         (Some [JStr (js ''a''), JStr (js ''PROGRESS:10''), JStr (js ''b''),
                JStr (js ''PROGRESS:87''), JStr (js ''c'')]) = Inr (Some 87)
   \<and> parseProgressFromLogs
         (Some [JStr (js ''PROGRESS:40''), JStr (js ''listening on port 8000'')]) = Inr (Some 40)"
proof -
  have main: "\<And>e. marker_of e = Some ds \<Longrightarrow> \<forall>x \<in> set post. marker_of x = None \<Longrightarrow>
      parseProgressFromLogs (Some (pre @ e # post)) = Inr (Some (max 0 (min 100 (decimal ds))))"
  proof -
    fix e assume m: "marker_of e = Some ds" and n: "\<forall>x \<in> set post. marker_of x = None"
    hence "latest_marker (e # post) = Some ds"
      by (simp add: latest_marker_None[symmetric])
    hence "latest_marker (pre @ e # post) = Some ds"
      by (simp add: latest_marker_append)
    thus "parseProgressFromLogs (Some (pre @ e # post)) = Inr (Some (max 0 (min 100 (decimal ds))))"
      by (simp add: parse_latest_marker clamp_percent_def)
  qed
  have lit: "js ''PROGRESS:'' = [80, 82, 79, 71, 82, 69, 83, 83, 58]"
    "js ''0123456789'' = [48, 49, 50, 51, 52, 53, 54, 55, 56, 57]"
    by (rule PROGRESS_literal, rule digits_literal)
  have dec: "decimal [] = 0" "\<forall>n d. decimal (n @ [d]) = 10 * decimal n + int (d - 48)"
    by (simp_all add: decimal_def)
  have chS: "\<forall>x m. marker_of x = Some m \<longleftrightarrow>
         (\<exists>s a b. x = JStr s \<and> s = a @ js ''PROGRESS:'' @ m @ b
            \<and> m \<noteq> [] \<and> set m \<subseteq> set (js ''0123456789'') \<and> length m \<le> 3
            \<and> (length m = 3 \<or> b = [] \<or> hd b \<notin> set (js ''0123456789''))
            \<and> (\<forall>a' d b'. s = a' @ js ''PROGRESS:'' @ d # b' \<and> d \<in> set (js ''0123456789'')
                   \<longrightarrow> length a \<le> length a'))"
    by (intro allI) (rule marker_of_Some_iff)
  have chN: "\<forall>x. marker_of x = None \<longleftrightarrow>
         \<not> (\<exists>s a d b. x = JStr s \<and> s = a @ js ''PROGRESS:'' @ d # b \<and> d \<in> set (js ''0123456789''))"
    by (intro allI) (rule marker_of_None_iff)
  have direct: "s = a @ js ''PROGRESS:'' @ ds @ b
        \<and> ds \<noteq> [] \<and> set ds \<subseteq> set (js ''0123456789'') \<and> length ds \<le> 3
        \<and> (length ds = 3 \<or> b = [] \<or> hd b \<notin> set (js ''0123456789''))
        \<and> (\<forall>a' d b'. s = a' @ js ''PROGRESS:'' @ d # b' \<and> d \<in> set (js ''0123456789'')
               \<longrightarrow> length a \<le> length a')
        \<and> \<not> (\<exists>t a' d b'. JStr t \<in> set post \<and> t = a' @ js ''PROGRESS:'' @ d # b'
               \<and> d \<in> set (js ''0123456789''))
      \<longrightarrow> parseProgressFromLogs (Some (pre @ JStr s # post))
            = Inr (Some (max 0 (min 100 (decimal ds))))"
  proof
    assume h: "s = a @ js ''PROGRESS:'' @ ds @ b
        \<and> ds \<noteq> [] \<and> set ds \<subseteq> set (js ''0123456789'') \<and> length ds \<le> 3
        \<and> (length ds = 3 \<or> b = [] \<or> hd b \<notin> set (js ''0123456789''))
        \<and> (\<forall>a' d b'. s = a' @ js ''PROGRESS:'' @ d # b' \<and> d \<in> set (js ''0123456789'')
               \<longrightarrow> length a \<le> length a')
        \<and> \<not> (\<exists>t a' d b'. JStr t \<in> set post \<and> t = a' @ js ''PROGRESS:'' @ d # b'
               \<and> d \<in> set (js ''0123456789''))"
    hence "\<exists>s' a b. JStr s = JStr s' \<and> s' = a @ js ''PROGRESS:'' @ ds @ b
            \<and> ds \<noteq> [] \<and> set ds \<subseteq> set (js ''0123456789'') \<and> length ds \<le> 3
            \<and> (length ds = 3 \<or> b = [] \<or> hd b \<notin> set (js ''0123456789''))
            \<and> (\<forall>a' d b'. s' = a' @ js ''PROGRESS:'' @ d # b' \<and> d \<in> set (js ''0123456789'')
                   \<longrightarrow> length a \<le> length a')"
      by (intro exI[of _ s] exI[of _ a] exI[of _ b]) simp
    hence m: "marker_of (JStr s) = Some ds" by (simp only: marker_of_Some_iff)
    from h have n: "\<forall>x \<in> set post. marker_of x = None"
      by (simp only: no_marker_entries) simp
    from main[OF m n]
    show "parseProgressFromLogs (Some (pre @ JStr s # post))
            = Inr (Some (max 0 (min 100 (decimal ds))))" .
  qed
  have old: "marker_of e = Some ds \<and> (\<forall>x \<in> set post. marker_of x = None) \<longrightarrow>
      parseInt ds = Some (decimal ds) \<and>
      parseProgressFromLogs (Some (pre @ e # post)) = Inr (Some (max 0 (min 100 (decimal ds))))"
    using main by (auto intro: marker_parseInt)
  have ex: "parseProgressFromLogs
         (Some [JStr (js ''a''), JStr (js ''PROGRESS:10''), JStr (js ''b''),
                JStr (js ''PROGRESS:87''), JStr (js ''c'')]) = Inr (Some 87)"
    by (simp add: parseProgressFromLogs_def js_def match_here_def is_digit_def parseInt_def
                  is_whitespace_def decimal_def Let_def)
  have ex2: "parseProgressFromLogs
         (Some [JStr (js ''PROGRESS:40''), JStr (js ''listening on port 8000'')]) = Inr (Some 40)"
    by (simp add: parseProgressFromLogs_def js_def match_here_def is_digit_def parseInt_def
                  is_whitespace_def decimal_def Let_def)
  from lit dec chS chN direct old ex ex2 show ?thesis
    by (intro conjI) assumption+
qed


theorem latest_marker_wins_witness:
  "marker_of (JStr (js ''PROGRESS:1234'')) = Some (js ''123'')
   \<and> marker_of (JStr (js ''PROGRESS:x PROGRESS:5 PROGRESS:9'')) = Some (js ''5'')
   \<and> js ''PROGRESS:40'' = [] @ js ''PROGRESS:'' @ js ''40'' @ []
   \<and> marker_of (JStr (js ''PROGRESS:40'')) = Some (js ''40'')
   \<and> marker_of (JStr (js ''listening on port 8000'')) = None
   \<and> \<not> (\<exists>a d b. js ''listening on port 8000'' = a @ js ''PROGRESS:'' @ d # b
                \<and> d \<in> set (js ''0123456789''))
   \<and> parseProgressFromLogs
         (Some ([] @ JStr (js ''PROGRESS:40'') # [JStr (js ''listening on port 8000'')]))
       = Inr (Some 40)
   \<and> marker_of (JStr (js ''PROGRESS:87'')) = Some (js ''87'')
   \<and> marker_of (JStr (js ''c'')) = None
   \<and> parseProgressFromLogs
         (Some ([JStr (js ''a''), JStr (js ''PROGRESS:10''), JStr (js ''b'')]
                @ JStr (js ''PROGRESS:87'') # [JStr (js ''c'')])) = Inr (Some 87)"
proof -
  let ?l = "js ''listening on port 8000''"
  note T40 = latest_marker_wins[where s = "js ''PROGRESS:40''" and a = "[]" and ds = "js ''40''"
      and b = "[]" and post = "[JStr ?l]" and pre = "[]" and e = "JStr (js ''PROGRESS:87'')"]
  note T87 = latest_marker_wins[where s = "js ''PROGRESS:87''" and a = "[]" and ds = "js ''87''"
      and b = "[]" and post = "[JStr (js ''c'')]"
      and pre = "[JStr (js ''a''), JStr (js ''PROGRESS:10''), JStr (js ''b'')]"
      and e = "JStr (js ''PROGRESS:87'')"]
  from T40 have chN: "\<forall>x. marker_of x = None \<longleftrightarrow>
         \<not> (\<exists>s a d b. x = JStr s \<and> s = a @ js ''PROGRESS:'' @ d # b \<and> d \<in> set (js ''0123456789''))"
    by (elim conjE)
  from T40 have direct40: "js ''PROGRESS:40'' = [] @ js ''PROGRESS:'' @ js ''40'' @ []
        \<and> js ''40'' \<noteq> [] \<and> set (js ''40'') \<subseteq> set (js ''0123456789'') \<and> length (js ''40'') \<le> 3
        \<and> (length (js ''40'') = 3 \<or> ([]::nat list) = [] \<or> hd [] \<notin> set (js ''0123456789''))
        \<and> (\<forall>a' d b'. js ''PROGRESS:40'' = a' @ js ''PROGRESS:'' @ d # b' \<and> d \<in> set (js ''0123456789'')
               \<longrightarrow> length ([]::nat list) \<le> length a')
        \<and> \<not> (\<exists>t a' d b'. JStr t \<in> set [JStr ?l] \<and> t = a' @ js ''PROGRESS:'' @ d # b'
               \<and> d \<in> set (js ''0123456789''))
      \<longrightarrow> parseProgressFromLogs (Some ([] @ JStr (js ''PROGRESS:40'') # [JStr ?l]))
            = Inr (Some (max 0 (min 100 (decimal (js ''40'')))))"
    by (elim conjE)
  from T87 have old87: "marker_of (JStr (js ''PROGRESS:87'')) = Some (js ''87'')
      \<and> (\<forall>x \<in> set [JStr (js ''c'')]. marker_of x = None) \<longrightarrow>
      parseInt (js ''87'') = Some (decimal (js ''87'')) \<and>
      parseProgressFromLogs (Some ([JStr (js ''a''), JStr (js ''PROGRESS:10''), JStr (js ''b'')]
                @ JStr (js ''PROGRESS:87'') # [JStr (js ''c'')]))
        = Inr (Some (max 0 (min 100 (decimal (js ''87'')))))"
    by (elim conjE)
  have e40: "js ''PROGRESS:40'' = [] @ js ''PROGRESS:'' @ js ''40'' @ []"
    by (simp add: js_def)
  have g40: "js ''40'' \<noteq> [] \<and> set (js ''40'') \<subseteq> set (js ''0123456789'') \<and> length (js ''40'') \<le> 3"
    by (simp add: js_def)
  have m40: "marker_of (JStr (js ''PROGRESS:40'')) = Some (js ''40'')"
    by (simp add: js_def match_here_def is_digit_def)
  have nl: "marker_of (JStr ?l) = None"
    by (simp add: js_def match_here_def is_digit_def)
  with chN have nl': "\<not> (\<exists>s a d b. JStr ?l = JStr s \<and> s = a @ js ''PROGRESS:'' @ d # b
                          \<and> d \<in> set (js ''0123456789''))"
    by blast
  hence nl'': "\<not> (\<exists>a d b. ?l = a @ js ''PROGRESS:'' @ d # b \<and> d \<in> set (js ''0123456789''))"
    by blast
  hence np: "\<not> (\<exists>t a' d b'. JStr t \<in> set [JStr ?l] \<and> t = a' @ js ''PROGRESS:'' @ d # b'
               \<and> d \<in> set (js ''0123456789''))"
    by simp
  have d40: "decimal (js ''40'') = 40" by (simp add: js_def decimal_def)
  from direct40 e40 g40 np
  have "parseProgressFromLogs (Some ([] @ JStr (js ''PROGRESS:40'') # [JStr ?l]))
            = Inr (Some (max 0 (min 100 (decimal (js ''40'')))))"
    by simp
  hence r40: "parseProgressFromLogs (Some ([] @ JStr (js ''PROGRESS:40'') # [JStr ?l])) = Inr (Some 40)"
    by (simp only: d40) simp
  have m87: "marker_of (JStr (js ''PROGRESS:87'')) = Some (js ''87'')"
    by (simp add: js_def match_here_def is_digit_def)
  have nc: "marker_of (JStr (js ''c'')) = None"
    by (simp add: js_def match_here_def is_digit_def)
  have d87: "decimal (js ''87'') = 87" by (simp add: js_def decimal_def)
  from old87 m87 nc
  have "parseProgressFromLogs (Some ([JStr (js ''a''), JStr (js ''PROGRESS:10''), JStr (js ''b'')]
                @ JStr (js ''PROGRESS:87'') # [JStr (js ''c'')]))
        = Inr (Some (max 0 (min 100 (decimal (js ''87'')))))"
    by simp
  hence r87: "parseProgressFromLogs (Some ([JStr (js ''a''), JStr (js ''PROGRESS:10''), JStr (js ''b'')]
                @ JStr (js ''PROGRESS:87'') # [JStr (js ''c'')])) = Inr (Some 87)"
    by (simp only: d87) simp
  have g1: "marker_of (JStr (js ''PROGRESS:1234'')) = Some (js ''123'')"
    by (simp add: js_def match_here_def is_digit_def)
  have g2: "marker_of (JStr (js ''PROGRESS:x PROGRESS:5 PROGRESS:9'')) = Some (js ''5'')"
    by (simp add: js_def match_here_def is_digit_def)
  from g1 g2 e40 m40 nl nl'' r40 m87 nc r87 show ?thesis
    by (intro conjI) assumption+
qed

text \<open>
  C6. When no entry matches the marker pattern the extractor returns \<open>null\<close> (also
  when the job has no logs at all), and it returns a number if and only if some entry
  matches. The pattern is said here by the text alone: an entry matches exactly when it
  is a string that contains \<open>PROGRESS:\<close> with a digit \<open>0\<close> to \<open>9\<close> right after it;
  lines with digits but without \<open>PROGRESS:\<close> give \<open>null\<close>.
\<close>

theorem unknown_iff_no_marker:
  "js ''PROGRESS:'' = [80, 82, 79, 71, 82, 69, 83, 83, 58]
   \<and> js ''0123456789'' = [48, 49, 50, 51, 52, 53, 54, 55, 56, 57]
   \<and> (\<forall>x. marker_of x = None \<longleftrightarrow>
         \<not> (\<exists>s a d b. x = JStr s \<and> s = a @ js ''PROGRESS:'' @ d # b \<and> d \<in> set (js ''0123456789'')))
   \<and> parseProgressFromLogs None = Inr None
   \<and> (parseProgressFromLogs (Some ls) = Inr None \<longleftrightarrow>
        \<not> (\<exists>s a d b. JStr s \<in> set ls \<and> s = a @ js ''PROGRESS:'' @ d # b
               \<and> d \<in> set (js ''0123456789'')))
   \<and> ((\<exists>v. parseProgressFromLogs (Some ls) = Inr (Some v)) \<longleftrightarrow>
        (\<exists>s a d b. JStr s \<in> set ls \<and> s = a @ js ''PROGRESS:'' @ d # b
               \<and> d \<in> set (js ''0123456789'')))
   \<and> (parseProgressFromLogs (Some ls) = Inr None \<longleftrightarrow> (\<forall>e \<in> set ls. marker_of e = None))
   \<and> ((\<exists>v. parseProgressFromLogs (Some ls) = Inr (Some v)) \<longleftrightarrow> (\<exists>e \<in> set ls. marker_of e \<noteq> None))
   \<and> parseProgressFromLogs (Some [JStr (js ''step 1''), JStr (js ''listening on port 8000'')])
       = Inr None"
proof -
  have lit: "js ''PROGRESS:'' = [80, 82, 79, 71, 82, 69, 83, 83, 58]"
    "js ''0123456789'' = [48, 49, 50, 51, 52, 53, 54, 55, 56, 57]"
    by (rule PROGRESS_literal, rule digits_literal)
  have chN: "\<forall>x. marker_of x = None \<longleftrightarrow>
         \<not> (\<exists>s a d b. x = JStr s \<and> s = a @ js ''PROGRESS:'' @ d # b \<and> d \<in> set (js ''0123456789''))"
    by (intro allI) (rule marker_of_None_iff)
  have none: "parseProgressFromLogs None = Inr None"
    by (simp add: parseProgressFromLogs_def)
  have o1: "parseProgressFromLogs (Some ls) = Inr None \<longleftrightarrow> (\<forall>e \<in> set ls. marker_of e = None)"
    by (simp add: parse_latest_marker latest_marker_None)
  have "(\<exists>v. parseProgressFromLogs (Some ls) = Inr (Some v)) \<longleftrightarrow> latest_marker ls \<noteq> None"
    by (cases "latest_marker ls") (simp_all add: parse_latest_marker)
  hence o2: "(\<exists>v. parseProgressFromLogs (Some ls) = Inr (Some v)) \<longleftrightarrow> (\<exists>e \<in> set ls. marker_of e \<noteq> None)"
    by (simp add: latest_marker_None)
  from o1 have d1: "parseProgressFromLogs (Some ls) = Inr None \<longleftrightarrow>
        \<not> (\<exists>s a d b. JStr s \<in> set ls \<and> s = a @ js ''PROGRESS:'' @ d # b
               \<and> d \<in> set (js ''0123456789''))"
    by (simp only: no_marker_entries)
  have "(\<exists>e \<in> set ls. marker_of e \<noteq> None) \<longleftrightarrow> \<not> (\<forall>e \<in> set ls. marker_of e = None)"
    by simp
  with o2 have d2: "(\<exists>v. parseProgressFromLogs (Some ls) = Inr (Some v)) \<longleftrightarrow>
        (\<exists>s a d b. JStr s \<in> set ls \<and> s = a @ js ''PROGRESS:'' @ d # b
               \<and> d \<in> set (js ''0123456789''))"
    by (simp only: no_marker_entries) simp
  have ex: "parseProgressFromLogs (Some [JStr (js ''step 1''), JStr (js ''listening on port 8000'')])
       = Inr None"
    by (simp add: parseProgressFromLogs_def js_def match_here_def is_digit_def Let_def)
  from lit chN none d1 d2 o1 o2 ex show ?thesis
    by (intro conjI) assumption+
qed

theorem unknown_iff_no_marker_witness:
  "marker_of (JStr (js ''step 1'')) = None \<and> marker_of JNull = None
   \<and> marker_of (JStr (js ''PROGRESS:'')) = None
   \<and> \<not> (\<exists>a d b. js ''step 1'' = a @ js ''PROGRESS:'' @ d # b \<and> d \<in> set (js ''0123456789''))
   \<and> \<not> (\<exists>a d b. js ''PROGRESS:'' = a @ js ''PROGRESS:'' @ d # b \<and> d \<in> set (js ''0123456789''))
   \<and> parseProgressFromLogs (Some [JStr (js ''step 1''), JNull, JStr (js ''PROGRESS:'')]) = Inr None
   \<and> js ''build PROGRESS:7 ok'' = js ''build '' @ js ''PROGRESS:'' @ 55 # js '' ok''
   \<and> 55 \<in> set (js ''0123456789'')
   \<and> (\<exists>v. parseProgressFromLogs (Some [JStr (js ''build PROGRESS:7 ok'')]) = Inr (Some v))"
proof -
  let ?ls = "[JStr (js ''step 1''), JNull, JStr (js ''PROGRESS:'')]"
  note T1 = unknown_iff_no_marker[of ?ls]
  note T2 = unknown_iff_no_marker[of "[JStr (js ''build PROGRESS:7 ok'')]"]
  from T1 have chN: "\<forall>x. marker_of x = None \<longleftrightarrow>
         \<not> (\<exists>s a d b. x = JStr s \<and> s = a @ js ''PROGRESS:'' @ d # b \<and> d \<in> set (js ''0123456789''))"
    by (elim conjE)
  from T1 have d1: "parseProgressFromLogs (Some ?ls) = Inr None \<longleftrightarrow>
        \<not> (\<exists>s a d b. JStr s \<in> set ?ls \<and> s = a @ js ''PROGRESS:'' @ d # b
               \<and> d \<in> set (js ''0123456789''))"
    by (elim conjE)
  from T2 have d2: "(\<exists>v. parseProgressFromLogs (Some [JStr (js ''build PROGRESS:7 ok'')]) = Inr (Some v)) \<longleftrightarrow>
        (\<exists>s a d b. JStr s \<in> set [JStr (js ''build PROGRESS:7 ok'')] \<and> s = a @ js ''PROGRESS:'' @ d # b
               \<and> d \<in> set (js ''0123456789''))"
    by (elim conjE)
  have n1: "marker_of (JStr (js ''step 1'')) = None"
    by (simp add: js_def match_here_def is_digit_def)
  have n2: "marker_of JNull = None" by simp
  have n3: "marker_of (JStr (js ''PROGRESS:'')) = None"
    by (simp add: js_def match_here_def is_digit_def)
  from chN n1 have "\<not> (\<exists>s a d b. JStr (js ''step 1'') = JStr s \<and> s = a @ js ''PROGRESS:'' @ d # b
                          \<and> d \<in> set (js ''0123456789''))" by blast
  hence t1: "\<not> (\<exists>a d b. js ''step 1'' = a @ js ''PROGRESS:'' @ d # b \<and> d \<in> set (js ''0123456789''))"
    by blast
  from chN n3 have "\<not> (\<exists>s a d b. JStr (js ''PROGRESS:'') = JStr s \<and> s = a @ js ''PROGRESS:'' @ d # b
                          \<and> d \<in> set (js ''0123456789''))" by blast
  hence t3: "\<not> (\<exists>a d b. js ''PROGRESS:'' = a @ js ''PROGRESS:'' @ d # b \<and> d \<in> set (js ''0123456789''))"
    by blast
  have "\<not> (\<exists>s a d b. JStr s \<in> set ?ls \<and> s = a @ js ''PROGRESS:'' @ d # b
               \<and> d \<in> set (js ''0123456789''))"
  proof
    assume "\<exists>s a d b. JStr s \<in> set ?ls \<and> s = a @ js ''PROGRESS:'' @ d # b
               \<and> d \<in> set (js ''0123456789'')"
    then obtain s a d b where m: "JStr s \<in> set ?ls"
      and e: "s = a @ js ''PROGRESS:'' @ d # b" and d: "d \<in> set (js ''0123456789'')"
      by (elim exE conjE)
    from e d have ex: "\<exists>a d b. s = a @ js ''PROGRESS:'' @ d # b \<and> d \<in> set (js ''0123456789'')"
      by (intro exI[of _ a] exI[of _ d] exI[of _ b] conjI)
    from m have "s = js ''step 1'' \<or> s = js ''PROGRESS:''" by simp
    thus False
    proof
      assume s1: "s = js ''step 1''"
      from ex have "\<exists>a d b. js ''step 1'' = a @ js ''PROGRESS:'' @ d # b \<and> d \<in> set (js ''0123456789'')"
        unfolding s1 .
      with t1 show False by (rule notE)
    next
      assume s3: "s = js ''PROGRESS:''"
      from ex have "\<exists>a d b. js ''PROGRESS:'' = a @ js ''PROGRESS:'' @ d # b \<and> d \<in> set (js ''0123456789'')"
        unfolding s3 .
      with t3 show False by (rule notE)
    qed
  qed
  with d1 have r1: "parseProgressFromLogs (Some ?ls) = Inr None" by blast
  have e7: "js ''build PROGRESS:7 ok'' = js ''build '' @ js ''PROGRESS:'' @ 55 # js '' ok''"
    by (simp add: js_def)
  have i7: "55 \<in> set (js ''0123456789'')" by (simp add: js_def)
  from e7 i7 have "\<exists>s a d b. JStr s \<in> set [JStr (js ''build PROGRESS:7 ok'')]
        \<and> s = a @ js ''PROGRESS:'' @ d # b \<and> d \<in> set (js ''0123456789'')"
    by (intro exI[of _ "js ''build PROGRESS:7 ok''"] exI[of _ "js ''build ''"] exI[of _ 55]
              exI[of _ "js '' ok''"]) simp
  with d2 have r2: "\<exists>v. parseProgressFromLogs (Some [JStr (js ''build PROGRESS:7 ok'')]) = Inr (Some v)"
    by blast
  from n1 n2 n3 t1 t3 r1 e7 i7 r2 show ?thesis
    by (intro conjI) assumption+
qed

text \<open>
  C9. The extractor is total: for every array of entries (strings or not) and for
  missing logs it returns a value and raises nothing; an entry that is not a string is
  skipped, that is, the result is the same as without it; every number returned lies in
  0..100; and a latest marker whose digits are a number above 100 gives 100, as for a
  line containing \<open>PROGRESS:999\<close>.
\<close>

theorem parse_total_and_bounded:
  "(\<exists>r. parseProgressFromLogs logs_opt = Inr r)
   \<and> (typeof e \<noteq> ''string'' \<longrightarrow>
        parseProgressFromLogs (Some (pre @ e # post)) = parseProgressFromLogs (Some (pre @ post)))
   \<and> (parseProgressFromLogs logs_opt = Inr (Some v) \<longrightarrow> 0 \<le> v \<and> v \<le> 100)
   \<and> (marker_of e' = Some ds \<and> (\<forall>x \<in> set post. marker_of x = None) \<and> 100 < decimal ds \<longrightarrow>
        parseProgressFromLogs (Some (pre @ e' # post)) = Inr (Some 100))
   \<and> parseProgressFromLogs (Some [JNum 5, JStr (js ''step PROGRESS:999 done''), JNull]) = Inr (Some 100)"
proof (intro conjI impI)
  show "\<exists>r. parseProgressFromLogs logs_opt = Inr r"
    by (cases logs_opt) (simp_all add: parse_latest_marker, simp add: parseProgressFromLogs_def)
next
  assume "typeof e \<noteq> ''string''"
  hence "marker_of e = None" by (rule typeof_not_string)
  hence "latest_marker (pre @ e # post) = latest_marker (pre @ post)"
    by (simp add: latest_marker_append split: option.splits)
  thus "parseProgressFromLogs (Some (pre @ e # post)) = parseProgressFromLogs (Some (pre @ post))"
    by (simp add: parse_latest_marker)
next
  assume r: "parseProgressFromLogs logs_opt = Inr (Some v)"
  then obtain ls where "logs_opt = Some ls"
    by (cases logs_opt) (simp_all add: parseProgressFromLogs_def)
  with r have "map_option (\<lambda>ds. clamp_percent (decimal ds)) (latest_marker ls) = Some v"
    by (simp add: parse_latest_marker)
  then obtain ds where "v = clamp_percent (decimal ds)" by auto
  thus "0 \<le> v" and "v \<le> 100"
    by (simp_all add: clamp_percent_range)
next
  assume a: "marker_of e' = Some ds \<and> (\<forall>x \<in> set post. marker_of x = None) \<and> 100 < decimal ds"
  hence "latest_marker (e' # post) = Some ds"
    by (simp add: latest_marker_None[symmetric])
  hence "latest_marker (pre @ e' # post) = Some ds"
    by (simp add: latest_marker_append)
  with a show "parseProgressFromLogs (Some (pre @ e' # post)) = Inr (Some 100)"
    by (simp add: parse_latest_marker clamp_percent_def)
next
  show "parseProgressFromLogs (Some [JNum 5, JStr (js ''step PROGRESS:999 done''), JNull]) = Inr (Some 100)"
    by (simp add: parseProgressFromLogs_def js_def match_here_def is_digit_def parseInt_def
                  is_whitespace_def decimal_def Let_def)
qed

theorem parse_total_and_bounded_witness:
  "typeof JNull \<noteq> ''string''
   \<and> parseProgressFromLogs (Some ([JStr (js ''PROGRESS:1000'')] @ JNull # [])) = Inr (Some 100)
   \<and> (0::int) \<le> 100 \<and> (100::int) \<le> 100
   \<and> marker_of (JStr (js ''PROGRESS:1000'')) = Some (js ''100'')
   \<and> marker_of (JStr (js ''PROGRESS:999'')) = Some (js ''999'')
   \<and> marker_of JNull = None \<and> 100 < decimal (js ''999'')
   \<and> parseProgressFromLogs (Some ([] @ JStr (js ''PROGRESS:999'') # [JNull])) = Inr (Some 100)"
proof -
  have t: "typeof JNull \<noteq> ''string''" by simp
  have p: "parseProgressFromLogs (Some ([JStr (js ''PROGRESS:1000'')] @ [])) = Inr (Some 100)"
    by (simp add: parseProgressFromLogs_def js_def match_here_def is_digit_def parseInt_def
                  is_whitespace_def decimal_def Let_def)
  have m0: "marker_of (JStr (js ''PROGRESS:1000'')) = Some (js ''100'')"
    by (simp add: js_def match_here_def is_digit_def)
  have m: "marker_of (JStr (js ''PROGRESS:999'')) = Some (js ''999'')"
    by (simp add: js_def match_here_def is_digit_def)
  have n: "marker_of JNull = None" by simp
  have d: "100 < decimal (js ''999'')" by (simp add: js_def decimal_def)
  from parse_total_and_bounded[of "Some ([JStr (js ''PROGRESS:1000'')] @ JNull # [])" JNull
         "[JStr (js ''PROGRESS:1000'')]" "[]" 100 "JStr (js ''PROGRESS:999'')" "js ''999''"]
       parse_total_and_bounded[of "Some ([JStr (js ''PROGRESS:1000'')] @ JNull # [])" JNull
         "[]" "[JNull]" 100 "JStr (js ''PROGRESS:999'')" "js ''999''"]
       t p m0 m n d
  show ?thesis by simp
qed

section \<open>Facts about the displayed estimate\<close>






section \<open>Facts about build tags\<close>

lemma digits_of_1: "n < 10 \<Longrightarrow> digits_of n = [48 + n]"
  by (subst digits_of.simps) simp

lemma digits_of_2: "10 \<le> n \<Longrightarrow> n < 100 \<Longrightarrow> digits_of n = [48 + n div 10, 48 + n mod 10]"
  by (subst digits_of.simps) (simp add: digits_of_1 del: digits_of.simps)

lemma digits_of_3:
  "100 \<le> n \<Longrightarrow> n < 1000 \<Longrightarrow> digits_of n = [48 + n div 100, 48 + n div 10 mod 10, 48 + n mod 10]"
  by (subst digits_of.simps) (simp add: digits_of_2 div_mult2_eq[symmetric] del: digits_of.simps)

lemma digits_of_4:
  "1000 \<le> n \<Longrightarrow> n < 10000 \<Longrightarrow>
   digits_of n = [48 + n div 1000, 48 + n div 100 mod 10, 48 + n div 10 mod 10, 48 + n mod 10]"
  by (subst digits_of.simps) (simp add: digits_of_3 div_mult2_eq[symmetric] del: digits_of.simps)

lemma pad_two: "0 \<le> n \<Longrightarrow> n \<le> 99 \<Longrightarrow> pad n = two_digits n"
proof -
  assume a: "0 \<le> n" "n \<le> 99"
  define m where "m = nat n"
  with a have n: "n = int m" and m: "m \<le> 99" by simp_all
  have d: "nat (int m div 10) = m div 10" "nat (int m mod 10) = m mod 10"
    by (simp_all add: nat_div_distrib nat_mod_distrib)
  show ?thesis
  proof (cases "m < 10")
    case True
    thus ?thesis
      by (simp add: n d pad_def String_def padStart_def two_digits_def digits_of_1 del: digits_of.simps)
  next
    case False
    with m show ?thesis
      by (simp add: n d pad_def String_def padStart_def two_digits_def digits_of_2 del: digits_of.simps)
  qed
qed

lemma String_four: "1000 \<le> y \<Longrightarrow> y \<le> 9999 \<Longrightarrow> String y = four_digits y"
proof -
  assume a: "1000 \<le> y" "y \<le> 9999"
  define m where "m = nat y"
  with a have y: "y = int m" and m: "1000 \<le> m" "m < 10000" by simp_all
  have d: "nat (int m div 1000) = m div 1000" "nat (int m div 100 mod 10) = m div 100 mod 10"
          "nat (int m div 10 mod 10) = m div 10 mod 10" "nat (int m mod 10) = m mod 10"
    by (simp_all add: nat_div_distrib nat_mod_distrib)
  from m show ?thesis
    by (simp add: y d String_def four_digits_def digits_of_4 del: digits_of.simps)
qed

lemma two_digits_are_digits: "0 \<le> n \<Longrightarrow> n \<le> 99 \<Longrightarrow> list_all is_digit (two_digits n)"
  by (auto simp: two_digits_def is_digit_def)

lemma four_digits_are_digits: "1000 \<le> n \<Longrightarrow> n \<le> 9999 \<Longrightarrow> list_all is_digit (four_digits n)"
  by (auto simp: four_digits_def is_digit_def)


lemma trim_id:
  assumes "s \<noteq> []" "\<not> is_whitespace (hd s)" "\<not> is_whitespace (last s)"
  shows "trim s = s"
proof -
  from assms(1,2) have 1: "dropWhile is_whitespace s = s"
    by (cases s) simp_all
  from assms(1,3) have "dropWhile is_whitespace (rev s) = rev s"
    by (cases "rev s") (simp_all add: hd_rev[symmetric])
  with 1 show ?thesis by (simp add: trim_def)
qed

lemma generateTag_form:
  assumes "valid_date d" "1000 \<le> getUTCFullYear d" "getUTCFullYear d \<le> 9999"
  shows "generateTag d =
           four_digits (getUTCFullYear d) @ two_digits (getUTCMonth d + 1) @ two_digits (getUTCDate d)
           @ [45] @ two_digits (getUTCHours d) @ two_digits (getUTCMinutes d)
           @ two_digits (getUTCSeconds d)"
  using assms by (simp add: generateTag_def valid_date_def Let_def String_four pad_two)

lemma form_auto_pattern:
  assumes "list_all is_digit y4" "length y4 = 4" "list_all is_digit (a @ b @ c @ e @ f)"
          "length a = 2" "length b = 2" "length c = 2" "length e = 2" "length f = 2"
  shows "auto_pattern (y4 @ a @ b @ [45] @ c @ e @ f)"
  using assms by (simp add: auto_pattern_def nth_append)

lemma digit_word_char: "is_digit c \<Longrightarrow> is_word_char c"
  by (simp add: is_word_char_def)

lemma digit_not_space: "is_digit c \<Longrightarrow> \<not> is_whitespace c"
  by (auto simp: is_digit_def is_whitespace_def)

lemma auto_pattern_tag_pattern:
  assumes "auto_pattern t"
  shows "tag_pattern t \<and> length t \<le> 128 \<and> trim t = t"
proof -
  from assms have len: "length t = 15" and d1: "list_all is_digit (take 8 t)"
    and dash: "t ! 8 = 45" and d2: "list_all is_digit (drop 9 t)"
    by (simp_all add: auto_pattern_def)
  have t: "t = take 8 t @ t ! 8 # drop 9 t"
    using len id_take_nth_drop[of 8 t] by simp
  from len obtain c cs where c: "t = c # cs" by (cases t) auto
  with d1 have hd: "is_digit c" by simp
  have all: "list_all (\<lambda>x. is_word_char x \<or> x = 46 \<or> x = 45) t"
  proof -
    have "list_all (\<lambda>x. is_word_char x \<or> x = 46 \<or> x = 45) (take 8 t @ t ! 8 # drop 9 t)"
      using d1 d2 dash by (auto simp: list_all_iff digit_word_char)
    with t show ?thesis by simp
  qed
  have tp: "tag_pattern t"
    using all hd by (simp add: c tag_pattern_def digit_word_char)
  have "last t = last (drop 9 t)" using len by simp
  moreover have "drop 9 t \<noteq> []" using len by simp
  ultimately have "is_digit (last t)"
    using d2 by (metis last_in_set list_all_iff)
  hence "trim t = t"
    using hd c by (intro trim_id) (simp_all add: digit_not_space)
  with tp len show ?thesis by simp
qed


lemma validateTag_trimmed:
  "trim raw \<noteq> [] \<Longrightarrow>
   validateTag (Some raw) = \<lparr>ok = (length (trim raw) \<le> 128 \<and> tag_pattern (trim raw)), tvalue = trim raw\<rparr>"
  by (cases "raw = []") (simp_all add: validateTag_def Let_def)

lemma validateTag_blank: "trim raw = [] \<Longrightarrow> validateTag (Some raw) = \<lparr>ok = True, tvalue = []\<rparr>"
  by (cases "raw = []") (simp_all add: validateTag_def Let_def)

lemma tag_pattern_replicate: "0 < n \<Longrightarrow> tag_pattern (replicate n 97)"
  by (cases n) (simp_all add: tag_pattern_def is_word_char_def list_all_iff)

lemma trim_trailing_space: "0 < n \<Longrightarrow> trim (replicate n 97 @ [32]) = replicate n 97"
proof -
  assume n: "0 < n"
  have w: "\<not> is_whitespace 97" "is_whitespace 32" by (simp_all add: is_whitespace_def)
  from n obtain m where m: "n = Suc m" by (cases n) auto
  have 1: "dropWhile is_whitespace (replicate n 97 @ [32]) = replicate n 97 @ [32]"
    using w by (simp add: m)
  have "rev (replicate n 97 @ [32]) = 32 # replicate n (97::nat)" by simp
  hence "dropWhile is_whitespace (rev (replicate n 97 @ [32])) = replicate n 97"
    using w by (simp add: m)
  with 1 show ?thesis by (simp add: trim_def)
qed

text \<open>
  C3, as stated, fails: the tag is trimmed before it is checked. The tag \<open>" a"\<close> is not
  empty and does not match the pattern, yet it is accepted (as \<open>"a"\<close>); and the
  129-character tag of 128 letters \<open>a\<close> and a final space is accepted and sent as the
  128 letters.
\<close>

theorem tag_rule_counterexample:
  "js '' a'' \<noteq> [] \<and> \<not> tag_pattern (js '' a'') \<and> ok (validateTag (Some (js '' a'')))
   \<and> length (replicate 128 (97::nat) @ [32]) = 129
   \<and> ok (validateTag (Some (replicate 128 97 @ [32])))
   \<and> submit \<lparr>branchesLoaded = True, branches = [js ''main''], branch = js ''main'',
              tag = replicate 128 97 @ [32]\<rparr>
        \<lparr>getUTCFullYear = 2026, getUTCMonth = 10, getUTCDate = 2, getUTCHours = 8,
         getUTCMinutes = 5, getUTCSeconds = 9\<rparr> = PostBuild (replicate 128 97)"
proof -
  have t: "trim (replicate 128 97 @ [32]) = replicate 128 97"
    by (rule trim_trailing_space) simp
  have ne: "replicate 128 (97::nat) \<noteq> []" by simp
  have v: "validateTag (Some (replicate 128 97 @ [32])) = \<lparr>ok = True, tvalue = replicate 128 97\<rparr>"
    using validateTag_trimmed[of "replicate 128 97 @ [32]"] tag_pattern_replicate[of 128]
    by (simp only: t) simp
  have a: "js '' a'' \<noteq> [] \<and> \<not> tag_pattern (js '' a'') \<and> ok (validateTag (Some (js '' a'')))"
    by (simp add: validateTag_def trim_def is_whitespace_def tag_pattern_def is_word_char_def
                  is_digit_def Let_def js_def)
  have s: "submit \<lparr>branchesLoaded = True, branches = [js ''main''], branch = js ''main'',
              tag = replicate 128 97 @ [32]\<rparr>
        \<lparr>getUTCFullYear = 2026, getUTCMonth = 10, getUTCDate = 2, getUTCHours = 8,
         getUTCMinutes = 5, getUTCSeconds = 9\<rparr> = PostBuild (replicate 128 97)"
    using ne by (simp add: submit_def v js_def Let_def)
  from a v s show ?thesis by simp
qed

text \<open>
  C3, amended. A build tag that is not empty after trimming is accepted if and only if
  its trimmed text is at most 128 characters long and matches
  \<open>^[A-Za-z0-9_][A-Za-z0-9_.-]*$\<close>, and the trimmed text is the tag used; for a tag
  without white space at either end this is the rule for the tag itself. So
  \<open>"release-1.0"\<close> is accepted and \<open>"bad tag"\<close> is rejected, and for every tag whose
  trimmed text has more than 128 characters \<open>submit\<close> sends no build request.
\<close>

theorem tag_rule:
  "(trim raw \<noteq> [] \<longrightarrow>
      (ok (validateTag (Some raw)) \<longleftrightarrow> length (trim raw) \<le> 128 \<and> tag_pattern (trim raw))
      \<and> tvalue (validateTag (Some raw)) = trim raw)
   \<and> (raw \<noteq> [] \<and> \<not> is_whitespace (hd raw) \<and> \<not> is_whitespace (last raw) \<longrightarrow>
      (ok (validateTag (Some raw)) \<longleftrightarrow> length raw \<le> 128 \<and> tag_pattern raw))
   \<and> validateTag (Some (js ''release-1.0'')) = \<lparr>ok = True, tvalue = js ''release-1.0''\<rparr>
   \<and> \<not> ok (validateTag (Some (js ''bad tag'')))
   \<and> (128 < length (trim (tag f)) \<longrightarrow>
        \<not> ok (validateTag (Some (tag f))) \<and> (\<forall>t. submit f now \<noteq> PostBuild t))"
proof (intro conjI impI allI)
  assume "trim raw \<noteq> []"
  from validateTag_trimmed[OF this]
  show "ok (validateTag (Some raw)) \<longleftrightarrow> length (trim raw) \<le> 128 \<and> tag_pattern (trim raw)"
    and "tvalue (validateTag (Some raw)) = trim raw" by simp_all
next
  assume a: "raw \<noteq> [] \<and> \<not> is_whitespace (hd raw) \<and> \<not> is_whitespace (last raw)"
  hence t: "trim raw = raw" by (simp add: trim_id)
  with a have "trim raw \<noteq> []" by simp
  from validateTag_trimmed[OF this] t
  show "ok (validateTag (Some raw)) \<longleftrightarrow> length raw \<le> 128 \<and> tag_pattern raw" by simp
next
  show "validateTag (Some (js ''release-1.0'')) = \<lparr>ok = True, tvalue = js ''release-1.0''\<rparr>"
    by (simp add: validateTag_def trim_def is_whitespace_def tag_pattern_def is_word_char_def
                  is_digit_def Let_def js_def)
next
  show "\<not> ok (validateTag (Some (js ''bad tag'')))"
    by (simp add: validateTag_def trim_def is_whitespace_def tag_pattern_def is_word_char_def
                  is_digit_def Let_def js_def)
next
  assume l: "128 < length (trim (tag f))"
  hence "trim (tag f) \<noteq> []" by auto
  from validateTag_trimmed[OF this] l
  show r: "\<not> ok (validateTag (Some (tag f)))" by simp
  fix t show "submit f now \<noteq> PostBuild t"
    using r by (simp add: submit_def Let_def)
qed

theorem tag_rule_witness:
  "trim (js '' v1.2 '') = js ''v1.2'' \<and> js ''v1.2'' \<noteq> []
   \<and> validateTag (Some (js '' v1.2 '')) = \<lparr>ok = True, tvalue = js ''v1.2''\<rparr>
   \<and> js ''v1.2'' \<noteq> [] \<and> \<not> is_whitespace (hd (js ''v1.2'')) \<and> \<not> is_whitespace (last (js ''v1.2''))
   \<and> ok (validateTag (Some (js ''v1.2'')))
   \<and> 128 < length (trim (replicate 129 (97::nat)))
   \<and> submit \<lparr>branchesLoaded = True, branches = [js ''main''], branch = js ''main'',
              tag = replicate 129 97\<rparr>
        \<lparr>getUTCFullYear = 2026, getUTCMonth = 10, getUTCDate = 2, getUTCHours = 8,
         getUTCMinutes = 5, getUTCSeconds = 9\<rparr> = TagError"
proof -
  let ?f = "\<lparr>branchesLoaded = True, branches = [js ''main''], branch = js ''main'',
             tag = replicate 129 (97::nat)\<rparr>"
  let ?now = "\<lparr>getUTCFullYear = 2026, getUTCMonth = 10, getUTCDate = 2, getUTCHours = 8,
         getUTCMinutes = 5, getUTCSeconds = 9\<rparr>"
  have t1: "trim (js '' v1.2 '') = js ''v1.2''"
    by (simp add: trim_def is_whitespace_def js_def)
  have ne: "js ''v1.2'' \<noteq> []" by (simp add: js_def)
  have w: "\<not> is_whitespace (hd (js ''v1.2''))" "\<not> is_whitespace (last (js ''v1.2''))"
    by (simp_all add: is_whitespace_def js_def)
  have p: "length (js ''v1.2'') \<le> 128 \<and> tag_pattern (js ''v1.2'')"
    by (simp add: tag_pattern_def is_word_char_def is_digit_def js_def)
  have t2: "trim (replicate 129 (97::nat)) = replicate 129 97"
    by (rule trim_id) (simp_all add: is_whitespace_def last_replicate)
  hence l: "128 < length (trim (tag ?f))" by simp
  from tag_rule[of "js '' v1.2 ''" ?f ?now] t1 ne p
  have a: "validateTag (Some (js '' v1.2 '')) = \<lparr>ok = True, tvalue = js ''v1.2''\<rparr>"
    by (cases "validateTag (Some (js '' v1.2 ''))") simp
  from tag_rule[of "js ''v1.2''" ?f ?now] ne w p
  have b: "ok (validateTag (Some (js ''v1.2'')))" by simp
  from tag_rule[of "js ''v1.2''" ?f ?now] l
  have "\<not> ok (validateTag (Some (tag ?f)))" by blast
  hence c: "submit ?f ?now = TagError"
    by (simp add: submit_def Let_def js_def)
  from t1 ne a w b l c show ?thesis by simp
qed


text \<open>
  C4, as stated, fails: the year is written as \<open>String\<close> gives it, without padding or
  cutting, so the tag has eight digits before the dash only for a year of four digits.
  On 1 January of the year 10000 a blank tag is replaced by \<open>100000101-000000\<close>,
  which does not match \<open>^\d{8}-\d{6}$\<close>.
\<close>

theorem generated_tag_counterexample:
  "valid_date \<lparr>getUTCFullYear = 10000, getUTCMonth = 0, getUTCDate = 1, getUTCHours = 0,
               getUTCMinutes = 0, getUTCSeconds = 0\<rparr>
   \<and> trim (js ''  '') = []
   \<and> submit \<lparr>branchesLoaded = True, branches = [js ''main''], branch = js ''main'', tag = js ''  ''\<rparr>
        \<lparr>getUTCFullYear = 10000, getUTCMonth = 0, getUTCDate = 1, getUTCHours = 0,
         getUTCMinutes = 0, getUTCSeconds = 0\<rparr> = PostBuild (js ''100000101-000000'')
   \<and> \<not> auto_pattern (js ''100000101-000000'')"
proof -
  have g: "generateTag \<lparr>getUTCFullYear = 10000, getUTCMonth = 0, getUTCDate = 1, getUTCHours = 0,
               getUTCMinutes = 0, getUTCSeconds = 0\<rparr> = js ''100000101-000000''"
    by (simp add: generateTag_def String_def pad_def padStart_def js_def)
  have t: "trim (js ''  '') = []"
    by (simp add: trim_def is_whitespace_def js_def)
  have v: "valid_date \<lparr>getUTCFullYear = 10000, getUTCMonth = 0, getUTCDate = 1, getUTCHours = 0,
               getUTCMinutes = 0, getUTCSeconds = 0\<rparr>"
    by (simp add: valid_date_def)
  have n: "\<not> auto_pattern (js ''100000101-000000'')"
    by (simp add: auto_pattern_def js_def)
  have m: "js ''main'' \<noteq> []" by (simp add: js_def)
  have "submit \<lparr>branchesLoaded = True, branches = [js ''main''], branch = js ''main'', tag = js ''  ''\<rparr>
        \<lparr>getUTCFullYear = 10000, getUTCMonth = 0, getUTCDate = 1, getUTCHours = 0,
         getUTCMinutes = 0, getUTCSeconds = 0\<rparr> = PostBuild (js ''100000101-000000'')"
    using m by (simp add: submit_def validateTag_blank[OF t] g Let_def)
  with v t n show ?thesis by simp
qed

text \<open>
  C4, amended. For every build submission that passes the branch checks and whose tag
  is blank (empty after trimming), the tag sent is generated from the current UTC time;
  and whenever the current UTC year has four digits (1000 to 9999), the generated tag
  has the form \<open>yyyyMMdd-HHmmss\<close>, matches \<open>^\d{8}-\d{6}$\<close>, and satisfies the tag
  validation rule (it is accepted unchanged).
\<close>

theorem blank_tag_generated:
  "(\<not> (branchesLoaded f \<and> branches f = []) \<and> branch f \<noteq> [] \<and> trim (tag f) = [] \<longrightarrow>
      submit f now = PostBuild (generateTag now))
   \<and> (valid_date now \<and> 1000 \<le> getUTCFullYear now \<and> getUTCFullYear now \<le> 9999 \<longrightarrow>
        generateTag now =
          four_digits (getUTCFullYear now) @ two_digits (getUTCMonth now + 1)
          @ two_digits (getUTCDate now) @ [45] @ two_digits (getUTCHours now)
          @ two_digits (getUTCMinutes now) @ two_digits (getUTCSeconds now)
        \<and> auto_pattern (generateTag now)
        \<and> length (generateTag now) \<le> 128 \<and> tag_pattern (generateTag now)
        \<and> validateTag (Some (generateTag now)) = \<lparr>ok = True, tvalue = generateTag now\<rparr>)"
proof (intro conjI impI)
  assume a: "\<not> (branchesLoaded f \<and> branches f = []) \<and> branch f \<noteq> [] \<and> trim (tag f) = []"
  hence "validateTag (Some (tag f)) = \<lparr>ok = True, tvalue = []\<rparr>"
    by (simp add: validateTag_blank)
  with a show "submit f now = PostBuild (generateTag now)"
    by (simp add: submit_def Let_def)
next
  assume a: "valid_date now \<and> 1000 \<le> getUTCFullYear now \<and> getUTCFullYear now \<le> 9999"
  hence form: "generateTag now =
          four_digits (getUTCFullYear now) @ two_digits (getUTCMonth now + 1)
          @ two_digits (getUTCDate now) @ [45] @ two_digits (getUTCHours now)
          @ two_digits (getUTCMinutes now) @ two_digits (getUTCSeconds now)"
    by (simp add: generateTag_form)
  from a have "list_all is_digit (four_digits (getUTCFullYear now))"
    by (simp add: four_digits_are_digits)
  moreover from a have
    "list_all is_digit (two_digits (getUTCMonth now + 1))"
    "list_all is_digit (two_digits (getUTCDate now))"
    "list_all is_digit (two_digits (getUTCHours now))"
    "list_all is_digit (two_digits (getUTCMinutes now))"
    "list_all is_digit (two_digits (getUTCSeconds now))"
    by (simp_all add: valid_date_def two_digits_are_digits)
  ultimately have ap: "auto_pattern (generateTag now)"
    unfolding form by (intro form_auto_pattern) (simp_all add: two_digits_def four_digits_def)
  from auto_pattern_tag_pattern[OF ap]
  have tp: "tag_pattern (generateTag now)" and len: "length (generateTag now) \<le> 128"
    and tr: "trim (generateTag now) = generateTag now" by simp_all
  from ap have "generateTag now \<noteq> []" by (auto simp: auto_pattern_def)
  with tr have "trim (generateTag now) \<noteq> []" by simp
  from validateTag_trimmed[OF this] tr tp len
  have v: "validateTag (Some (generateTag now)) = \<lparr>ok = True, tvalue = generateTag now\<rparr>"
    by simp
  from form show "generateTag now =
          four_digits (getUTCFullYear now) @ two_digits (getUTCMonth now + 1)
          @ two_digits (getUTCDate now) @ [45] @ two_digits (getUTCHours now)
          @ two_digits (getUTCMinutes now) @ two_digits (getUTCSeconds now)" .
  from ap show "auto_pattern (generateTag now)" .
  from len show "length (generateTag now) \<le> 128" .
  from tp show "tag_pattern (generateTag now)" .
  from v show "validateTag (Some (generateTag now)) = \<lparr>ok = True, tvalue = generateTag now\<rparr>" .
qed

theorem blank_tag_generated_witness:
  "\<not> (True \<and> [js ''main''] = []) \<and> js ''main'' \<noteq> [] \<and> trim (js ''  '') = []
   \<and> valid_date \<lparr>getUTCFullYear = 2026, getUTCMonth = 10, getUTCDate = 2, getUTCHours = 8,
                 getUTCMinutes = 5, getUTCSeconds = 9\<rparr>
   \<and> (1000::int) \<le> 2026 \<and> (2026::int) \<le> 9999
   \<and> submit \<lparr>branchesLoaded = True, branches = [js ''main''], branch = js ''main'', tag = js ''  ''\<rparr>
        \<lparr>getUTCFullYear = 2026, getUTCMonth = 10, getUTCDate = 2, getUTCHours = 8,
         getUTCMinutes = 5, getUTCSeconds = 9\<rparr> = PostBuild (js ''20261102-080509'')
   \<and> auto_pattern (js ''20261102-080509'')
   \<and> validateTag (Some (js ''20261102-080509'')) = \<lparr>ok = True, tvalue = js ''20261102-080509''\<rparr>"
proof -
  let ?f = "\<lparr>branchesLoaded = True, branches = [js ''main''], branch = js ''main'', tag = js ''  ''\<rparr>"
  let ?now = "\<lparr>getUTCFullYear = 2026, getUTCMonth = 10, getUTCDate = 2, getUTCHours = 8,
         getUTCMinutes = 5, getUTCSeconds = 9\<rparr>"
  have g: "generateTag ?now = js ''20261102-080509''"
    by (simp add: generateTag_def String_def pad_def padStart_def js_def)
  have t: "trim (js ''  '') = []"
    by (simp add: trim_def is_whitespace_def js_def)
  have v: "valid_date ?now" by (simp add: valid_date_def)
  have m: "js ''main'' \<noteq> []" by (simp add: js_def)
  have h1: "\<not> (branchesLoaded ?f \<and> branches ?f = []) \<and> branch ?f \<noteq> [] \<and> trim (tag ?f) = []"
    using t m by simp
  have h2: "valid_date ?now \<and> 1000 \<le> getUTCFullYear ?now \<and> getUTCFullYear ?now \<le> 9999"
    using v by simp
  from blank_tag_generated[of ?f ?now] h1 h2
  have "submit ?f ?now = PostBuild (generateTag ?now) \<and> auto_pattern (generateTag ?now)
        \<and> validateTag (Some (generateTag ?now)) = \<lparr>ok = True, tvalue = generateTag ?now\<rparr>"
    by blast
  with g t v m show ?thesis by simp
qed

section \<open>Facts about the sort of the job list\<close>




















text \<open>
  What the comparator does by design with the other unknown states and with a missing
  timestamp: the priority is 4, after error, and the timestamp counts as 0.
\<close>

lemma unknown_state_rank:
  assumes "k \<noteq> js ''running''" "k \<noteq> js ''queued''" "k \<noteq> js ''done''" "k \<noteq> js ''error''"
    "k \<notin> set Object_prototype_keys"
  shows "nullish (stateOrder k) 4 = Num 4"
  using assms by (simp add: stateOrder_def nullish_def)

lemma missing_timestamp_zero: "or_zero None = 0"
  by (simp add: or_zero_def)

text \<open>
  On the two jobs of the example below the comparator calls everything equal, so it is
  consistent there and the result of \<open>sort\<close> is determined: the input order.
\<close>

lemma inherited_example_consistent:
  "consistent_on (SortCompare comparefn)
     {\<lparr>state = Some (js ''constructor''), logs = None, timestamp = Some 5, progress = None\<rparr>,
      \<lparr>state = Some (js ''error''), logs = None, timestamp = Some 7, progress = None\<rparr>}"
proof -
  let ?X = "\<lparr>state = Some (js ''constructor''), logs = None, timestamp = Some 5, progress = None\<rparr>"
  let ?E = "\<lparr>state = Some (js ''error''), logs = None, timestamp = Some 7, progress = None\<rparr>"
  have rx: "stateRank ?X = Inherited (js ''constructor'')"
    by (simp add: stateRank_def stateOrder_def nullish_def property_key_def
                  Object_prototype_keys_def js_def)
  have re: "stateRank ?E = Num 3"
    by (simp add: stateRank_def stateOrder_def nullish_def property_key_def js_def)
  have v: "SortCompare comparefn ?X ?X = 0" "SortCompare comparefn ?X ?E = 0"
          "SortCompare comparefn ?E ?X = 0" "SortCompare comparefn ?E ?E = 0"
    by (simp_all add: SortCompare_def comparefn_def rx re or_zero_def Let_def)
  show ?thesis
    unfolding consistent_on_def by (simp add: v)
qed

text \<open>
  C10. The claim (every job whose state is outside running, queued, done, error gets
  priority 4 and is ordered after all error jobs) is what \<open>?? 4\<close> is there for, and
  the code misses it for a state that is the name of a member inherited from
  \<open>Object.prototype\<close>. For the job list \<open>[{state: "constructor", timestamp: 5},
  {state: "error", timestamp: 7}]\<close>: the lookup gives the inherited function, not
  \<open>undefined\<close>, so the default 4 is not taken; the comparator's difference is \<open>NaN\<close> in
  both directions, which \<open>sort\<close> reads as equal; and the job stays before the error job.
\<close>

theorem inherited_state_name_not_last:
  "stateRank \<lparr>state = Some (js ''constructor''), logs = None, timestamp = Some 5, progress = None\<rparr>
     = Inherited (js ''constructor'')
   \<and> stateRank \<lparr>state = Some (js ''error''), logs = None, timestamp = Some 7, progress = None\<rparr> = Num 3
   \<and> comparefn \<lparr>state = Some (js ''constructor''), logs = None, timestamp = Some 5, progress = None\<rparr>
                \<lparr>state = Some (js ''error''), logs = None, timestamp = Some 7, progress = None\<rparr> = None
   \<and> comparefn \<lparr>state = Some (js ''error''), logs = None, timestamp = Some 7, progress = None\<rparr>
                \<lparr>state = Some (js ''constructor''), logs = None, timestamp = Some 5, progress = None\<rparr> = None
   \<and> sortJobs [\<lparr>state = Some (js ''constructor''), logs = None, timestamp = Some 5, progress = None\<rparr>,
               \<lparr>state = Some (js ''error''), logs = None, timestamp = Some 7, progress = None\<rparr>]
       = [\<lparr>state = Some (js ''constructor''), logs = None, timestamp = Some 5, progress = None\<rparr>,
          \<lparr>state = Some (js ''error''), logs = None, timestamp = Some 7, progress = None\<rparr>]"
  by (simp add: sortJobs_def SortCompare_def comparefn_def stateRank_def stateOrder_def
                nullish_def property_key_def or_zero_def Object_prototype_keys_def js_def Let_def)

section \<open>Facts about the Re-enqueue Controller\<close>

lemma record_outcome_fields:
  "requeued_ids (record_outcome i out r) = requeued_ids r @ (if out = Requeued then [i] else [])"
  "skipped_jobs (record_outcome i out r) = skipped_jobs r @ (case out of Skipped w \<Rightarrow> [(i, w)] | _ \<Rightarrow> [])"
  "errored_jobs (record_outcome i out r) = errored_jobs r @ (case out of Errored d \<Rightarrow> [(i, d)] | _ \<Rightarrow> [])"
  by (cases out; simp add: record_outcome_def)+

lemma record_outcome_counts:
  "found (count' (record_outcome i out r)) = found (count' r)"
  "requeued (count' (record_outcome i out r)) = requeued (count' r) + (if out = Requeued then 1 else 0)"
  "skipped (count' (record_outcome i out r)) = skipped (count' r) + (case out of Skipped w \<Rightarrow> 1 | _ \<Rightarrow> 0)"
  "errors (count' (record_outcome i out r)) = errors (count' r) + (case out of Errored d \<Rightarrow> 1 | _ \<Rightarrow> 0)"
  by (cases out; simp add: record_outcome_def)+

lemma loop_lists:
  "requeued_ids (fst (reenqueue_loop st rs jobs r)) =
     requeued_ids r @ map job_id (filter (\<lambda>j. fst (reenqueue_one st rs j) = Requeued) jobs)
   \<and> skipped_jobs (fst (reenqueue_loop st rs jobs r)) =
     skipped_jobs r @ concat (map (\<lambda>j. case fst (reenqueue_one st rs j) of
                                           Skipped w \<Rightarrow> [(job_id j, w)] | _ \<Rightarrow> []) jobs)
   \<and> errored_jobs (fst (reenqueue_loop st rs jobs r)) =
     errored_jobs r @ concat (map (\<lambda>j. case fst (reenqueue_one st rs j) of
                                           Errored d \<Rightarrow> [(job_id j, d)] | _ \<Rightarrow> []) jobs)"
proof (induction jobs arbitrary: r)
  case Nil
  show ?case by simp
next
  case (Cons j rest)
  obtain out j' where o: "reenqueue_one st rs j = (out, j')" by (cases "reenqueue_one st rs j")
  obtain r' rest' where l: "reenqueue_loop st rs rest (record_outcome (job_id j) out r) = (r', rest')"
    by (cases "reenqueue_loop st rs rest (record_outcome (job_id j) out r)")
  from Cons.IH[of "record_outcome (job_id j) out r"] l
  show ?case by (simp add: o record_outcome_fields)
qed

lemma loop_counts:
  "found (count' (fst (reenqueue_loop st rs jobs r))) = found (count' r)
   \<and> requeued (count' (fst (reenqueue_loop st rs jobs r))) + length (requeued_ids r)
       = requeued (count' r) + length (requeued_ids (fst (reenqueue_loop st rs jobs r)))
   \<and> skipped (count' (fst (reenqueue_loop st rs jobs r))) + length (skipped_jobs r)
       = skipped (count' r) + length (skipped_jobs (fst (reenqueue_loop st rs jobs r)))
   \<and> errors (count' (fst (reenqueue_loop st rs jobs r))) + length (errored_jobs r)
       = errors (count' r) + length (errored_jobs (fst (reenqueue_loop st rs jobs r)))"
proof (induction jobs arbitrary: r)
  case Nil
  show ?case by simp
next
  case (Cons j rest)
  obtain out j' where o: "reenqueue_one st rs j = (out, j')" by (cases "reenqueue_one st rs j")
  obtain r' rest' where l: "reenqueue_loop st rs rest (record_outcome (job_id j) out r) = (r', rest')"
    by (cases "reenqueue_loop st rs rest (record_outcome (job_id j) out r)")
  from Cons.IH[of "record_outcome (job_id j) out r"] l
  show ?case
    by (cases out) (simp_all add: o record_outcome_fields record_outcome_counts)
qed

lemma loop_store:
  "snd (reenqueue_loop st rs jobs r) = map (\<lambda>j. snd (reenqueue_one st rs j)) jobs"
proof (induction jobs arbitrary: r)
  case Nil
  show ?case by simp
next
  case (Cons j rest)
  obtain out j' where o: "reenqueue_one st rs j = (out, j')" by (cases "reenqueue_one st rs j")
  obtain r' rest' where l: "reenqueue_loop st rs rest (record_outcome (job_id j) out r) = (r', rest')"
    by (cases "reenqueue_loop st rs rest (record_outcome (job_id j) out r)")
  from Cons.IH[of "record_outcome (job_id j) out r"] l
  show ?case by (simp add: o)
qed

lemma one_outcome_each:
  "length (filter (\<lambda>j. f j = Requeued) jobs)
   + length (concat (map (\<lambda>j. case f j of Skipped w \<Rightarrow> [(g j, w)] | _ \<Rightarrow> []) jobs))
   + length (concat (map (\<lambda>j. case f j of Errored d \<Rightarrow> [(g j, d)] | _ \<Rightarrow> []) jobs))
   = length jobs"
proof (induction jobs)
  case Nil
  show ?case by simp
next
  case (Cons j rest)
  thus ?case by (cases "f j") simp_all
qed


text \<open>
  C7. \<open>reenqueue_all\<close> applies the eligibility check to every job of \<open>list()\<close> and
  puts each job into exactly one of requeued, skipped (with its reason) and errored (with
  the error detail), by what \<open>reenqueue_one\<close> does with that job alone; the counts
  are the lengths of the three lists, \<open>found\<close> is the number of jobs and the three
  counts add up to it. An eligible job whose resubmission succeeds is requeued whatever
  happens to the other jobs. For five jobs, two in error, one running and stalled, one
  done and one queued, with every resubmission succeeding, the counts are found 5,
  requeued 3, skipped 2, errors 0, and the done and the queued job are skipped with
  different reasons; when the resubmission of the first job fails, the other two are
  requeued all the same.
\<close>

theorem reenqueue_all_partition:
  "found (count' (fst (reenqueue_all stalled resubmit jobs))) = length jobs
   \<and> requeued (count' (fst (reenqueue_all stalled resubmit jobs)))
       = length (requeued_ids (fst (reenqueue_all stalled resubmit jobs)))
   \<and> skipped (count' (fst (reenqueue_all stalled resubmit jobs)))
       = length (skipped_jobs (fst (reenqueue_all stalled resubmit jobs)))
   \<and> errors (count' (fst (reenqueue_all stalled resubmit jobs)))
       = length (errored_jobs (fst (reenqueue_all stalled resubmit jobs)))
   \<and> requeued (count' (fst (reenqueue_all stalled resubmit jobs)))
       + skipped (count' (fst (reenqueue_all stalled resubmit jobs)))
       + errors (count' (fst (reenqueue_all stalled resubmit jobs))) = length jobs
   \<and> requeued_ids (fst (reenqueue_all stalled resubmit jobs))
       = map job_id (filter (\<lambda>j. fst (reenqueue_one stalled resubmit j) = Requeued) jobs)
   \<and> skipped_jobs (fst (reenqueue_all stalled resubmit jobs))
       = concat (map (\<lambda>j. case fst (reenqueue_one stalled resubmit j) of
                             Skipped w \<Rightarrow> [(job_id j, w)] | _ \<Rightarrow> []) jobs)
   \<and> errored_jobs (fst (reenqueue_all stalled resubmit jobs))
       = concat (map (\<lambda>j. case fst (reenqueue_one stalled resubmit j) of
                             Errored d \<Rightarrow> [(job_id j, d)] | _ \<Rightarrow> []) jobs)
   \<and> snd (reenqueue_all stalled resubmit jobs)
       = map (\<lambda>j. snd (reenqueue_one stalled resubmit j)) jobs
   \<and> (j \<in> set jobs \<and> eligibility stalled j = None \<and> resubmit (job_id j) = None \<longrightarrow>
        job_id j \<in> set (requeued_ids (fst (reenqueue_all stalled resubmit jobs))))
   \<and> fst (reenqueue_all (\<lambda>j. job_id j = 3) (\<lambda>i. None)
            [\<lparr>job_id = 1, job_state = Error, job_logs = []\<rparr>,
             \<lparr>job_id = 2, job_state = Error, job_logs = []\<rparr>,
             \<lparr>job_id = 3, job_state = Running, job_logs = []\<rparr>,
             \<lparr>job_id = 4, job_state = Done, job_logs = []\<rparr>,
             \<lparr>job_id = 5, job_state = Queued, job_logs = []\<rparr>])
       = \<lparr>count' = \<lparr>found = 5, requeued = 3, skipped = 2, errors = 0\<rparr>,
          requeued_ids = [1, 2, 3],
          skipped_jobs = [(4, Already_done), (5, Already_queued)],
          errored_jobs = []\<rparr>
   \<and> Already_done \<noteq> Already_queued
   \<and> fst (reenqueue_all (\<lambda>j. job_id j = 3) (\<lambda>i. if i = 1 then Some ''store unavailable'' else None)
            [\<lparr>job_id = 1, job_state = Error, job_logs = []\<rparr>,
             \<lparr>job_id = 2, job_state = Error, job_logs = []\<rparr>,
             \<lparr>job_id = 3, job_state = Running, job_logs = []\<rparr>,
             \<lparr>job_id = 4, job_state = Done, job_logs = []\<rparr>,
             \<lparr>job_id = 5, job_state = Queued, job_logs = []\<rparr>])
       = \<lparr>count' = \<lparr>found = 5, requeued = 2, skipped = 2, errors = 1\<rparr>,
          requeued_ids = [2, 3],
          skipped_jobs = [(4, Already_done), (5, Already_queued)],
          errored_jobs = [(1, ''store unavailable'')]\<rparr>"
proof -
  let ?init = "\<lparr>count' = \<lparr>found = length jobs, requeued = 0, skipped = 0, errors = 0\<rparr>,
             requeued_ids = [], skipped_jobs = [], errored_jobs = []\<rparr>"
  let ?r = "fst (reenqueue_all stalled resubmit jobs)"
  have r: "?r = fst (reenqueue_loop stalled resubmit jobs ?init)"
    by (simp add: reenqueue_all_def)
  from loop_lists[of stalled resubmit jobs ?init]
  have l1: "requeued_ids ?r = map job_id (filter (\<lambda>j. fst (reenqueue_one stalled resubmit j) = Requeued) jobs)"
    and l2: "skipped_jobs ?r = concat (map (\<lambda>j. case fst (reenqueue_one stalled resubmit j) of
                             Skipped w \<Rightarrow> [(job_id j, w)] | _ \<Rightarrow> []) jobs)"
    and l3: "errored_jobs ?r = concat (map (\<lambda>j. case fst (reenqueue_one stalled resubmit j) of
                             Errored d \<Rightarrow> [(job_id j, d)] | _ \<Rightarrow> []) jobs)"
    by (simp_all add: r)
  from loop_counts[of stalled resubmit jobs ?init]
  have c0: "found (count' ?r) = length jobs"
    and c1: "requeued (count' ?r) = length (requeued_ids ?r)"
    and c2: "skipped (count' ?r) = length (skipped_jobs ?r)"
    and c3: "errors (count' ?r) = length (errored_jobs ?r)"
    by (simp_all add: r)
  have sum: "requeued (count' ?r) + skipped (count' ?r) + errors (count' ?r) = length jobs"
    unfolding c1 c2 c3 l1 l2 l3
    using one_outcome_each[of "\<lambda>j. fst (reenqueue_one stalled resubmit j)" jobs job_id]
    by simp
  have st: "snd (reenqueue_all stalled resubmit jobs) = map (\<lambda>j. snd (reenqueue_one stalled resubmit j)) jobs"
    by (simp add: reenqueue_all_def loop_store)
  have iso: "j \<in> set jobs \<and> eligibility stalled j = None \<and> resubmit (job_id j) = None \<longrightarrow>
        job_id j \<in> set (requeued_ids ?r)"
  proof
    assume a: "j \<in> set jobs \<and> eligibility stalled j = None \<and> resubmit (job_id j) = None"
    hence "fst (reenqueue_one stalled resubmit j) = Requeued"
      by (simp add: reenqueue_one_def)
    with a show "job_id j \<in> set (requeued_ids ?r)"
      unfolding l1 by auto
  qed
  have ex1: "fst (reenqueue_all (\<lambda>j. job_id j = 3) (\<lambda>i. None)
            [\<lparr>job_id = 1, job_state = Error, job_logs = []\<rparr>,
             \<lparr>job_id = 2, job_state = Error, job_logs = []\<rparr>,
             \<lparr>job_id = 3, job_state = Running, job_logs = []\<rparr>,
             \<lparr>job_id = 4, job_state = Done, job_logs = []\<rparr>,
             \<lparr>job_id = 5, job_state = Queued, job_logs = []\<rparr>])
       = \<lparr>count' = \<lparr>found = 5, requeued = 3, skipped = 2, errors = 0\<rparr>,
          requeued_ids = [1, 2, 3],
          skipped_jobs = [(4, Already_done), (5, Already_queued)],
          errored_jobs = []\<rparr>"
    by (simp add: reenqueue_all_def reenqueue_one_def eligibility_def record_outcome_def)
  have ex2: "fst (reenqueue_all (\<lambda>j. job_id j = 3) (\<lambda>i. if i = 1 then Some ''store unavailable'' else None)
            [\<lparr>job_id = 1, job_state = Error, job_logs = []\<rparr>,
             \<lparr>job_id = 2, job_state = Error, job_logs = []\<rparr>,
             \<lparr>job_id = 3, job_state = Running, job_logs = []\<rparr>,
             \<lparr>job_id = 4, job_state = Done, job_logs = []\<rparr>,
             \<lparr>job_id = 5, job_state = Queued, job_logs = []\<rparr>])
       = \<lparr>count' = \<lparr>found = 5, requeued = 2, skipped = 2, errors = 1\<rparr>,
          requeued_ids = [2, 3],
          skipped_jobs = [(4, Already_done), (5, Already_queued)],
          errored_jobs = [(1, ''store unavailable'')]\<rparr>"
    by (simp add: reenqueue_all_def reenqueue_one_def eligibility_def record_outcome_def)
  have d: "Already_done \<noteq> Already_queued" by simp
  from c0 c1 c2 c3 sum l1 l2 l3 st iso ex1 ex2 d show ?thesis
    by (intro conjI) assumption+
qed

theorem reenqueue_all_partition_witness:
  "\<lparr>job_id = 2, job_state = Error, job_logs = []\<rparr>
      \<in> set [\<lparr>job_id = 1, job_state = Error, job_logs = []\<rparr>,
              \<lparr>job_id = 2, job_state = Error, job_logs = []\<rparr>]
   \<and> eligibility (\<lambda>j. False) \<lparr>job_id = 2, job_state = Error, job_logs = []\<rparr> = None
   \<and> (if (2::nat) = 1 then Some ''store unavailable'' else None) = None
   \<and> 2 \<in> set (requeued_ids (fst (reenqueue_all (\<lambda>j. False)
                    (\<lambda>i. if i = 1 then Some ''store unavailable'' else None)
                    [\<lparr>job_id = 1, job_state = Error, job_logs = []\<rparr>,
                     \<lparr>job_id = 2, job_state = Error, job_logs = []\<rparr>])))"
proof -
  let ?j = "\<lparr>job_id = 2, job_state = Error, job_logs = []\<rparr>"
  let ?jobs = "[\<lparr>job_id = 1, job_state = Error, job_logs = []\<rparr>, ?j]"
  let ?rs = "\<lambda>i::nat. if i = 1 then Some ''store unavailable'' else None"
  have m: "?j \<in> set ?jobs" by simp
  have e: "eligibility (\<lambda>j. False) ?j = None" by (simp add: eligibility_def)
  have s: "?rs (job_id ?j) = None" by simp
  from reenqueue_all_partition[of "\<lambda>j. False" ?rs ?jobs ?j] m e s
  have "job_id ?j \<in> set (requeued_ids (fst (reenqueue_all (\<lambda>j. False) ?rs ?jobs)))"
    by blast
  with m e show ?thesis by simp
qed

end
